theory Spec2Isabelle
  imports Complex_Main "HOL-Library.Word"
begin

section \<open>EnvelopeProblemSOS: the data model\<close>

text \<open>
  The embedding follows \<^verbatim>\<open>include/sos/EnvelopeProblemSOS.cpp\<close>.

  Numbers. The scalar types of the source (\<^verbatim>\<open>double\<close>, and the multi-precision
  \<^verbatim>\<open>InterpolantDouble\<close>) are modelled as \<^typ>\<open>real\<close>: arithmetic is exact, rounding is
  not modelled, and the conversions between the two scalar types
  (\<^verbatim>\<open>InterpolantVectortoVector\<close> and the element-wise copies) are the identity.
  The one non-finite case the source can reach, a floating-point division by zero, is
  written out: \<open>fdiv\<close> returns \<open>Inl NonFinite\<close> there.
  The \<^verbatim>\<open>unsigned\<close> members \<^verbatim>\<open>_d\<close>, \<^verbatim>\<open>_L\<close>, \<^verbatim>\<open>_U\<close> and the \<^verbatim>\<open>int\<close> loop
  counters are natural numbers, and the \<^verbatim>\<open>int\<close> products \<^verbatim>\<open>k * n\<close> and
  \<^verbatim>\<open>2 * m * 2 * m\<close> and the \<^verbatim>\<open>unsigned\<close> product \<^verbatim>\<open>(_U - 1) * (_U - 1)\<close> are computed
  in unbounded integers. None of them leaves the 32-bit range for \<open>d \<le> 23170\<close>, where the
  \<open>L \<times> L\<close> cosine matrix of doubles already takes 4 GB; above that the source's signed
  products overflow, which is undefined behaviour in C++ and outside this model. The
  divisors are shown to stay non-zero under 32-bit wrap-around as well.

  Eigen. A dynamic vector is a list, a dynamic matrix the list of its rows. An Eigen
  operation on operands whose sizes do not fit stops at an assertion; the model returns
  \<open>Inl AssertionFailed\<close> there, and \<open>Inl OutOfRange\<close> for a read past the end of a
  \<^verbatim>\<open>std::vector\<close>.

  Logging. A function that writes to the logger returns the lines it wrote, each with its
  level, its format string and its numeric arguments. The lines that report elapsed
  wall-clock time are left out.
\<close>

type_synonym vec = "real list"
type_synonym mat = "real list list"

datatype failure = ProcessExit int | AssertionFailed | OutOfRange | NonFinite

datatype log_level = LevelInfo | LevelWarn | LevelError

datatype log_entry = Log log_level string "real list"

definition fdiv :: "real \<Rightarrow> real \<Rightarrow> failure + real" where
  "fdiv x y = (if y = 0 then Inl NonFinite else Inr (x / y))"

definition bindE :: "failure + 'a \<Rightarrow> ('a \<Rightarrow> failure + 'b) \<Rightarrow> failure + 'b" where
  "bindE m f = (case m of Inl e \<Rightarrow> Inl e | Inr x \<Rightarrow> f x)"

fun sequenceE :: "(failure + 'a) list \<Rightarrow> failure + 'a list" where
  "sequenceE [] = Inr []"
| "sequenceE (m # ms) = bindE m (\<lambda>x. bindE (sequenceE ms) (\<lambda>xs. Inr (x # xs)))"

record EnvelopeProblemSOS =
  m_n :: nat
  m_d :: nat
  m_L :: nat
  m_U :: nat
  m_input_in_interpolant_basis :: bool
  m_use_weighted_polynomials :: bool
  m_basis_polynomials :: "vec list"
  m_objectives_vector :: vec
  m_polynomials_bounds :: "vec list"

record Constraints =
  cA :: mat
  cb :: vec
  cc :: vec

datatype Barrier =
    InterpolantDualSOSBarrier nat "vec option"
  | SumBarrier nat "Barrier list"
  | ProductBarrier "Barrier list"

record Instance =
  constraints :: Constraints
  barrier :: Barrier

record Solution =
  sol_s :: vec

subsection \<open>Eigen vectors and matrices\<close>

definition Zero_vec :: "nat \<Rightarrow> vec" where
  "Zero_vec k = replicate k 0"

definition Zero_mat :: "nat \<Rightarrow> nat \<Rightarrow> mat" where
  "Zero_mat r c = replicate r (replicate c 0)"

text \<open>\<^verbatim>\<open>Vector::Ones(k).asDiagonal()\<close>\<close>

definition Ones_asDiagonal :: "nat \<Rightarrow> mat" where
  "Ones_asDiagonal k = map (\<lambda>i. map (\<lambda>j. if i = j then 1 else 0) [0..<k]) [0..<k]"

definition neg_vec :: "vec \<Rightarrow> vec" where
  "neg_vec v = map uminus v"

definition neg_mat :: "mat \<Rightarrow> mat" where
  "neg_mat M = map neg_vec M"

definition vec_sub :: "vec \<Rightarrow> vec \<Rightarrow> failure + vec" where
  "vec_sub v w = (if length v = length w then Inr (map2 (-) v w) else Inl AssertionFailed)"

text \<open>\<^verbatim>\<open>v.segment(start, len)\<close> read.\<close>

definition segment :: "vec \<Rightarrow> nat \<Rightarrow> nat \<Rightarrow> failure + vec" where
  "segment v start len =
     (if start + len \<le> length v then Inr (take len (drop start v)) else Inl AssertionFailed)"

text \<open>\<^verbatim>\<open>v.block(start, 0, len, 1) = w\<close>\<close>

definition assign_segment :: "vec \<Rightarrow> nat \<Rightarrow> nat \<Rightarrow> vec \<Rightarrow> failure + vec" where
  "assign_segment v start len w =
     (if start + len \<le> length v \<and> length w = len
      then Inr (take start v @ w @ drop (start + len) v)
      else Inl AssertionFailed)"

text \<open>\<^verbatim>\<open>M.block(r, c, nr, nc) = B\<close>\<close>

definition assign_block :: "mat \<Rightarrow> nat \<Rightarrow> nat \<Rightarrow> nat \<Rightarrow> nat \<Rightarrow> mat \<Rightarrow> failure + mat" where
  "assign_block M r c nr nc B =
     (if r + nr \<le> length M \<and> (\<forall>row \<in> set M. c + nc \<le> length row)
         \<and> length B = nr \<and> (\<forall>row \<in> set B. length row = nc)
      then Inr (map (\<lambda>i. if r \<le> i \<and> i < r + nr
                          then take c (M ! i) @ (B ! (i - r)) @ drop (c + nc) (M ! i)
                          else M ! i) [0..<length M])
      else Inl AssertionFailed)"

section \<open>construct_SOS_instance\<close>

text \<open>One pass of the loop over \<^verbatim>\<open>poly_idx\<close> (source lines 193 to 205).\<close>

definition constraint_step :: "EnvelopeProblemSOS \<Rightarrow> nat \<Rightarrow> Constraints \<Rightarrow> failure + Constraints" where
  "constraint_step st poly_idx cs =
     (let VECTOR_LENGTH = m_U st;
          polynomial = m_polynomials_bounds st ! (poly_idx + 1);
          poly_block = Ones_asDiagonal VECTOR_LENGTH
      in bindE (assign_block (cA cs) (poly_idx * VECTOR_LENGTH) 0 VECTOR_LENGTH VECTOR_LENGTH
                  (neg_mat poly_block)) (\<lambda>A1.
         bindE (assign_block A1 (poly_idx * VECTOR_LENGTH) ((poly_idx + 1) * VECTOR_LENGTH)
                  VECTOR_LENGTH VECTOR_LENGTH poly_block) (\<lambda>A2.
         bindE (vec_sub polynomial (m_polynomials_bounds st ! 0)) (\<lambda>rhs.
         bindE (assign_segment (cb cs) (poly_idx * VECTOR_LENGTH) VECTOR_LENGTH rhs) (\<lambda>b1.
         Inr (cs\<lparr>cA := A2, cb := b1\<rparr>))))))"

fun constraint_loop :: "EnvelopeProblemSOS \<Rightarrow> nat list \<Rightarrow> Constraints \<Rightarrow> failure + Constraints" where
  "constraint_loop st [] cs = Inr cs"
| "constraint_loop st (poly_idx # rest) cs =
     bindE (constraint_step st poly_idx cs) (constraint_loop st rest)"

text \<open>The primal constraint triple (source lines 185 to 205).\<close>

definition primal_constraints :: "EnvelopeProblemSOS \<Rightarrow> failure + Constraints" where
  "primal_constraints st =
     (let NUM_POLYNOMIALS = length (m_polynomials_bounds st);
          VECTOR_LENGTH = m_U st
      in bindE (assign_segment (Zero_vec (NUM_POLYNOMIALS * VECTOR_LENGTH)) 0 VECTOR_LENGTH
                  (neg_vec (m_objectives_vector st))) (\<lambda>c0.
         constraint_loop st [0..<NUM_POLYNOMIALS - 1]
           \<lparr>cA = Zero_mat ((NUM_POLYNOMIALS - 1) * VECTOR_LENGTH) (NUM_POLYNOMIALS * VECTOR_LENGTH),
            cb = Zero_vec ((NUM_POLYNOMIALS - 1) * VECTOR_LENGTH),
            cc = c0\<rparr>))"

text \<open>The barrier (source lines 213 to 237).\<close>

fun add_barrier :: "Barrier \<Rightarrow> Barrier \<Rightarrow> Barrier" where
  "add_barrier (ProductBarrier bs) b = ProductBarrier (bs @ [b])"
| "add_barrier (SumBarrier k bs) b = SumBarrier k (bs @ [b])"
| "add_barrier (InterpolantDualSOSBarrier k w) b = InterpolantDualSOSBarrier k w"

definition sum_barrier_of :: "EnvelopeProblemSOS \<Rightarrow> Barrier" where
  "sum_barrier_of st =
     (let sos_barrier = InterpolantDualSOSBarrier (m_d st) None;
          sum_barrier = add_barrier (SumBarrier (m_U st) []) sos_barrier
      in if m_use_weighted_polynomials st
         then add_barrier sum_barrier (InterpolantDualSOSBarrier (m_d st) (Some [1, 0, -1]))
         else sum_barrier)"

definition product_barrier_of :: "EnvelopeProblemSOS \<Rightarrow> Barrier" where
  "product_barrier_of st =
     foldl (\<lambda>productBarrier poly_idx. add_barrier productBarrier (sum_barrier_of st))
       (ProductBarrier []) [0..<length (m_polynomials_bounds st)]"

text \<open>
  \<^verbatim>\<open>Constraints::dual_system\<close> is declared outside this file; it is the parameter
  \<open>dual_system\<close>. \<^verbatim>\<open>exit(1)\<close> is the failure \<open>ProcessExit 1\<close>. The result carries the lines
  written to the logger; printing at trace level is left out.
\<close>

definition construct_SOS_instance ::
  "(Constraints \<Rightarrow> Constraints) \<Rightarrow> EnvelopeProblemSOS \<Rightarrow> log_entry list \<times> (failure + Instance)" where
  "construct_SOS_instance dual_system st =
     (let NUM_POLYNOMIALS = length (m_polynomials_bounds st) in
      if NUM_POLYNOMIALS = 0
      then ([Log LevelError ''Please provide a polynomial.'' []], Inl (ProcessExit 1))
      else if NUM_POLYNOMIALS = 1
      then ([Log LevelWarn ''Instance trivial. Please detrivialize.'' []], Inl (ProcessExit 1))
      else (case primal_constraints st of
              Inl e \<Rightarrow> ([], Inl e)
            | Inr cs \<Rightarrow>
                ([Log LevelInfo ''Original SOS instance created.'' [],
                  Log LevelInfo ''Dual formulation created.'' []],
                 Inr \<lparr>constraints = dual_system cs, barrier = product_barrier_of st\<rparr>)))"


subsection \<open>More Eigen operations\<close>

definition Identity_mat :: "nat \<Rightarrow> nat \<Rightarrow> mat" where
  "Identity_mat r c = map (\<lambda>i. map (\<lambda>j. if i = j then 1 else 0) [0..<c]) [0..<r]"

definition cols :: "mat \<Rightarrow> nat" where
  "cols M = (case M of [] \<Rightarrow> 0 | row # _ \<Rightarrow> length row)"

definition transpose_mat :: "mat \<Rightarrow> mat" where
  "transpose_mat M = map (\<lambda>j. map (\<lambda>row. row ! j) M) [0..<cols M]"

definition mat_vec :: "mat \<Rightarrow> vec \<Rightarrow> failure + vec" where
  "mat_vec M v =
     (if \<forall>row \<in> set M. length row = length v
      then Inr (map (\<lambda>row. sum_list (map2 (*) row v)) M)
      else Inl AssertionFailed)"

definition mat_mul :: "mat \<Rightarrow> mat \<Rightarrow> failure + mat" where
  "mat_mul M1 M2 =
     (if \<forall>row \<in> set M1. length row = length M2
      then Inr (map (\<lambda>row. map (\<lambda>j. sum_list (map2 (*) row (map (\<lambda>r2. r2 ! j) M2)))
                           [0..<cols M2]) M1)
      else Inl AssertionFailed)"

definition mat_sub :: "mat \<Rightarrow> mat \<Rightarrow> failure + mat" where
  "mat_sub M1 M2 =
     (if length M1 = length M2 \<and> (\<forall>(r1, r2) \<in> set (zip M1 M2). length r1 = length r2)
      then Inr (map2 (map2 (-)) M1 M2)
      else Inl AssertionFailed)"

text \<open>\<^verbatim>\<open>M.norm()\<close>, the Frobenius norm.\<close>

definition norm_mat :: "mat \<Rightarrow> real" where
  "norm_mat M = sqrt (sum_list (map (\<lambda>row. sum_list (map (\<lambda>x. x * x) row)) M))"

section \<open>calculate_basis_polynomials\<close>

text \<open>
  The interpolation nodes come from \<^verbatim>\<open>InterpolantDualSOSBarrier::get_basis\<close>, which is
  declared outside this file: they are the parameter \<open>chebyshev_points\<close>.

  One pass of the inner loop body (source lines 89 to 93): the coefficient vector is
  shifted up by one place, cut to \<open>U\<close> entries, and \<open>- chebyshev_points[j] * poly_i\<close> is
  added.
\<close>

definition basis_factor :: "nat \<Rightarrow> real \<Rightarrow> vec \<Rightarrow> vec" where
  "basis_factor U point_j poly_i =
     (let aux_vec = map (\<lambda>x. - point_j * x) poly_i;
          shift = 0 # poly_i
      in map2 (+) (take U shift) aux_vec)"

fun basis_inner_loop :: "vec \<Rightarrow> nat \<Rightarrow> nat \<Rightarrow> nat list \<Rightarrow> vec \<times> real \<Rightarrow> vec \<times> real" where
  "basis_inner_loop chebyshev_points U i [] (poly_i, denom) = (poly_i, denom)"
| "basis_inner_loop chebyshev_points U i (j # js) (poly_i, denom) =
     (if i \<noteq> j
      then basis_inner_loop chebyshev_points U i js
             (basis_factor U (chebyshev_points ! j) poly_i,
              denom * (chebyshev_points ! i - chebyshev_points ! j))
      else basis_inner_loop chebyshev_points U i js (poly_i, denom))"

definition basis_element :: "vec \<Rightarrow> nat \<Rightarrow> nat \<Rightarrow> failure + vec" where
  "basis_element chebyshev_points U i =
     (case basis_inner_loop chebyshev_points U i [0..<U] ((Zero_vec U)[0 := 1], 1) of
        (poly_i, denom) \<Rightarrow> sequenceE (map (\<lambda>x. fdiv x denom) poly_i))"

definition calculate_basis_polynomials :: "vec \<Rightarrow> EnvelopeProblemSOS \<Rightarrow> failure + EnvelopeProblemSOS" where
  "calculate_basis_polynomials chebyshev_points st =
     (if m_U st = 0 then Inl AssertionFailed
      else if length chebyshev_points < m_U st then Inl OutOfRange
      else bindE (sequenceE (map (basis_element chebyshev_points (m_U st)) [0..<m_U st]))
             (\<lambda>polys. Inr (st\<lparr>m_basis_polynomials := polys\<rparr>)))"

section \<open>get_clenshaw_curtis_integrals\<close>

text \<open>Source lines 112 to 114: one entry of \<open>D\<close> before the division by \<open>L - 1\<close>.\<close>

definition cosine_entry :: "nat \<Rightarrow> nat \<Rightarrow> nat \<Rightarrow> failure + real" where
  "cosine_entry L k n =
     (let scale_fac = (if n = 0 \<or> n = L - 1 then 1 / 2 else 1) in
      bindE (fdiv (real (k * n) * pi) (real (L - 1))) (\<lambda>arg. Inr (cos arg * scale_fac)))"

text \<open>Source lines 109 to 117.\<close>

definition cosine_matrix :: "nat \<Rightarrow> failure + mat" where
  "cosine_matrix L =
     bindE (sequenceE (map (\<lambda>k. sequenceE (map (\<lambda>n. cosine_entry L k n) [0..<L])) [0..<L]))
       (\<lambda>D. sequenceE (map (\<lambda>row. sequenceE (map (\<lambda>x. fdiv x (real (L - 1))) row)) D))"

text \<open>Source lines 123 to 125.\<close>

fun fourier_loop :: "nat list \<Rightarrow> vec \<Rightarrow> failure + vec" where
  "fourier_loop [] FourierCoeff = Inr FourierCoeff"
| "fourier_loop (m # ms) FourierCoeff =
     bindE (fdiv 2 (real_of_int (1 - 2 * int m * 2 * int m)))
       (\<lambda>x. fourier_loop ms (FourierCoeff[m := x]))"

text \<open>
  Source lines 119 to 125. The vector is written at index 0, then at index \<open>L - 1\<close>, then
  by the loop; every entry is written before it is read, so the contents it is created
  with do not matter and are taken as zero.
\<close>

definition fourier_coefficients :: "nat \<Rightarrow> nat \<Rightarrow> failure + vec" where
  "fourier_coefficients L U =
     (if L = 0 then Inl AssertionFailed
      else bindE (fdiv 1 (real_of_int (1 - int ((U - 1) * (U - 1)))))
             (\<lambda>x. fourier_loop [1..<L - 1] ((Zero_vec L)[0 := 1, L - 1 := x])))"

text \<open>Source lines 127 to 131: the weights before negation.\<close>

definition clenshaw_curtis_weights :: "nat \<Rightarrow> nat \<Rightarrow> failure + vec" where
  "clenshaw_curtis_weights L U =
     bindE (cosine_matrix L) (\<lambda>D.
     bindE (fourier_coefficients L U) (\<lambda>FourierCoeff.
     bindE (mat_vec (transpose_mat D) FourierCoeff) (\<lambda>DtF.
     bindE (assign_segment (Zero_vec U) 0 L DtF) (\<lambda>w1.
     bindE (segment w1 0 (L - 1)) (\<lambda>front.
     bindE (assign_segment w1 L (L - 1) (rev front)) (\<lambda>w2.
     if L - 1 < length w2 then Inr (w2[L - 1 := w2 ! (L - 1) * 2])
     else Inl AssertionFailed))))))"

definition get_clenshaw_curtis_integrals :: "EnvelopeProblemSOS \<Rightarrow> failure + EnvelopeProblemSOS" where
  "get_clenshaw_curtis_integrals st =
     bindE (clenshaw_curtis_weights (m_L st) (m_U st))
       (\<lambda>ClenshawCurtisWeights.
          Inr (st\<lparr>m_objectives_vector := map (\<lambda>x. - x) ClenshawCurtisWeights\<rparr>))"

section \<open>The constructor\<close>

text \<open>
  The members \<^verbatim>\<open>_input_in_interpolant_basis\<close> and \<^verbatim>\<open>_use_weighted_polynomials\<close> get their
  values in the class declaration, outside this file; they are parameters here. The
  hyper-rectangle is only read by the plotting routine and is not kept in the state.
\<close>

definition new_EnvelopeProblemSOS ::
  "bool \<Rightarrow> bool \<Rightarrow> vec \<Rightarrow> nat \<Rightarrow> nat \<Rightarrow> (real \<times> real) list \<Rightarrow> failure + EnvelopeProblemSOS" where
  "new_EnvelopeProblemSOS input_in_interpolant_basis use_weighted_polynomials chebyshev_points
       num_variables max_degree hyperRectangle =
     (if num_variables \<noteq> length hyperRectangle then Inl AssertionFailed
      else if num_variables \<noteq> 1 then Inl AssertionFailed
      else
        (let st0 = \<lparr>m_n = num_variables, m_d = max_degree,
                    m_L = max_degree + 1, m_U = 2 * max_degree + 1,
                    m_input_in_interpolant_basis = input_in_interpolant_basis,
                    m_use_weighted_polynomials = use_weighted_polynomials,
                    m_basis_polynomials = [], m_objectives_vector = [],
                    m_polynomials_bounds = []\<rparr>
         in bindE (if \<not> input_in_interpolant_basis
                   then calculate_basis_polynomials chebyshev_points st0 else Inr st0)
              get_clenshaw_curtis_integrals))"

section \<open>get_transformation_matrix and add_polynomial\<close>

definition get_transformation_matrix :: "EnvelopeProblemSOS \<Rightarrow> failure + mat" where
  "get_transformation_matrix st =
     (let k = length (m_basis_polynomials st) in
      if \<forall>p \<in> set (m_basis_polynomials st). k \<le> length p
      then Inr (map (\<lambda>i. map (\<lambda>j. m_basis_polynomials st ! j ! i) [0..<k]) [0..<k])
      else Inl AssertionFailed)"

text \<open>
  \<^verbatim>\<open>Q.inverse()\<close> and \<^verbatim>\<open>Q.colPivHouseholderQr().solve(polynomial)\<close> are Eigen's. The model
  takes the entries they return as the parameters \<open>inverse_entry\<close> and \<open>solve_entry\<close>; the
  sizes of the results are Eigen's: the inverse has the size of \<open>Q\<close>, the solution has as
  many entries as \<open>Q\<close> has columns, and \<open>solve\<close> asserts that the right-hand side has as many
  rows as \<open>Q\<close>.
\<close>

definition add_polynomial ::
  "(mat \<Rightarrow> nat \<Rightarrow> nat \<Rightarrow> real) \<Rightarrow> (mat \<Rightarrow> vec \<Rightarrow> nat \<Rightarrow> real) \<Rightarrow> EnvelopeProblemSOS \<Rightarrow> vec
     \<Rightarrow> log_entry list \<times> (failure + EnvelopeProblemSOS)" where
  "add_polynomial inverse_entry solve_entry st polynomial =
     (case get_transformation_matrix st of
        Inl e \<Rightarrow> ([], Inl e)
      | Inr Q \<Rightarrow>
          (let log1 = [Log LevelInfo ''Transformation matrix has norm {}'' [norm_mat Q]] in
           if m_input_in_interpolant_basis st
           then (log1, Inr (st\<lparr>m_polynomials_bounds := m_polynomials_bounds st @ [polynomial]\<rparr>))
           else
             (let k = length Q;
                  log2 = log1 @ [Log LevelInfo ''Invert transformation matrix to add polynomial ...'' []];
                  Q_inv = map (\<lambda>i. map (\<lambda>j. inverse_entry Q i j) [0..<k]) [0..<k]
              in case bindE (mat_mul Q Q_inv) (\<lambda>P. mat_sub P (Identity_mat k k)) of
                   Inl e \<Rightarrow> (log2, Inl e)
                 | Inr R \<Rightarrow>
                     (let inv_error = norm_mat R;
                          log3 = log2 @ [Log LevelInfo ''Inversion error is {}'' [inv_error]]
                      in if length polynomial \<noteq> k then (log3, Inl AssertionFailed)
                         else
                           (let inv_sol = map (solve_entry Q polynomial) [0..<k] in
                            (log3, Inr (st\<lparr>m_polynomials_bounds :=
                                              m_polynomials_bounds st @ [inv_sol]\<rparr>)))))))"

section \<open>print_solution\<close>

text \<open>
  The function returns nothing; the model returns the value its variable \<^verbatim>\<open>solution\<close>,
  declared at function scope, holds at the end. That variable is created with \<open>U\<close>
  entries and no initial value: the entries it is created with are the parameter
  \<open>fresh\<close>. In the branch for coefficient input the product \<^verbatim>\<open>Q * sol_vec\<close> initialises a
  second variable of the same name, declared inside the branch, which goes out of scope
  at the closing brace.
\<close>

definition print_solution :: "(nat \<Rightarrow> real) \<Rightarrow> EnvelopeProblemSOS \<Rightarrow> Solution \<Rightarrow> failure + vec" where
  "print_solution fresh st sol =
     (if m_polynomials_bounds st = [] then Inl AssertionFailed
      else
        bindE (segment (sol_s sol) 0 (length (m_objectives_vector st))) (\<lambda>sol_seg.
        (let sol_seg_interp = sol_seg in
         bindE (vec_sub (m_polynomials_bounds st ! 0) sol_seg_interp) (\<lambda>sol_vec.
         (let solution = map fresh [0..<m_U st] in
          if \<not> m_input_in_interpolant_basis st
          then bindE (get_transformation_matrix st) (\<lambda>Q.
               bindE (mat_vec Q sol_vec) (\<lambda>inner_solution. Inr solution))
          else Inr sol_vec)))))"

section \<open>Definitions used in the statements and proofs\<close>

text \<open>
  The matrix a block assignment yields when its size checks pass, the shape of a matrix,
  the final entries of \<open>A\<close> and \<open>b\<close>, and the invariant of the constraint loop: after \<open>k\<close>
  passes the row-blocks below \<open>k\<close> hold their final entries and all other entries are zero.
\<close>

definition block_upd :: "mat \<Rightarrow> nat \<Rightarrow> nat \<Rightarrow> nat \<Rightarrow> nat \<Rightarrow> mat \<Rightarrow> mat" where
  "block_upd M r c nr nc B = map (\<lambda>i. if r \<le> i \<and> i < r + nr
                          then take c (M ! i) @ (B ! (i - r)) @ drop (c + nc) (M ! i)
                          else M ! i) [0..<length M]"

definition has_shape :: "mat \<Rightarrow> nat \<Rightarrow> nat \<Rightarrow> bool" where
  "has_shape M r c = (length M = r \<and> (\<forall>row \<in> set M. length row = c))"

definition A_entry :: "nat \<Rightarrow> nat \<Rightarrow> nat \<Rightarrow> real" where
  "A_entry U idx col = (if col = idx mod U then -1 else if col = idx + U then 1 else 0)"

definition b_entry :: "EnvelopeProblemSOS \<Rightarrow> nat \<Rightarrow> real" where
  "b_entry st idx = m_polynomials_bounds st ! (idx div m_U st + 1) ! (idx mod m_U st)
                    - m_polynomials_bounds st ! 0 ! (idx mod m_U st)"

definition primal_inv :: "EnvelopeProblemSOS \<Rightarrow> nat \<Rightarrow> Constraints \<Rightarrow> bool" where
  "primal_inv st k cs =
     (let N = length (m_polynomials_bounds st); U = m_U st in
      has_shape (cA cs) ((N - 1) * U) (N * U) \<and> length (cb cs) = (N - 1) * U \<and>
      (\<forall>idx < (N - 1) * U. \<forall>col < N * U.
          cA cs ! idx ! col = (if idx < k * U then A_entry U idx col else 0)) \<and>
      (\<forall>idx < (N - 1) * U. cb cs ! idx = (if idx < k * U then b_entry st idx else 0)))"

text \<open>
  A state at \<open>d = 1\<close> for interpolant input, with the objective vector the constructor
  computes and the registered vectors \<open>(0, 0, 0)\<close> and \<open>(- 1, 0, 1)\<close>; and the same state
  with an empty registry and with one registered vector.
\<close>

definition example_state :: EnvelopeProblemSOS where
  "example_state =
     \<lparr>m_n = 1, m_d = 1, m_L = 2, m_U = 3,
      m_input_in_interpolant_basis = True, m_use_weighted_polynomials = True,
      m_basis_polynomials = [],
      m_objectives_vector = [- (1/3), - (4/3), - (1/3)],
      m_polynomials_bounds = [[0, 0, 0], [-1, 0, 1]]\<rparr>"

definition empty_state :: EnvelopeProblemSOS where
  "empty_state = example_state\<lparr>m_polynomials_bounds := []\<rparr>"

definition single_state :: EnvelopeProblemSOS where
  "single_state = example_state\<lparr>m_polynomials_bounds := [[0, 0, 0]]\<rparr>"

text \<open>
  Closed forms of the quadrature data for \<open>L = d + 1\<close>, \<open>U = 2 * d + 1\<close> and \<open>d \<ge> 1\<close>:
  the entries of \<open>D\<close>, the Fourier coefficients, and the entries of \<open>D\<^sup>T * FourierCoeff\<close>.
\<close>

definition Dval :: "nat \<Rightarrow> nat \<Rightarrow> nat \<Rightarrow> real" where
  "Dval d k n = cos (real (k * n) * pi / real d) * (if n = 0 \<or> n = d then 1 / 2 else 1) / real d"

definition Fval :: "nat \<Rightarrow> nat \<Rightarrow> real" where
  "Fval d m = (if m = d then 1 / real_of_int (1 - int (2 * d * (2 * d)))
               else if m = 0 then 1
               else 2 / real_of_int (1 - 2 * int m * 2 * int m))"

definition wval :: "nat \<Rightarrow> nat \<Rightarrow> real" where
  "wval d n = (\<Sum>k < d + 1. Dval d k n * Fval d k)"

text \<open>
  The divisors of the weight computation, in the order of the source: \<open>L - 1\<close> (lines 113
  and 117), \<open>1 - int((U - 1) * (U - 1))\<close> (line 121), and \<open>1 - 2 * m * 2 * m\<close> for the
  loop indices \<open>m\<close> (line 124).
\<close>

definition weight_divisors :: "nat \<Rightarrow> nat \<Rightarrow> real list" where
  "weight_divisors L U =
     real (L - 1) # real_of_int (1 - int ((U - 1) * (U - 1)))
       # map (\<lambda>m. real_of_int (1 - 2 * int m * 2 * int m)) [1..<L - 1]"

text \<open>
  The same two integer divisors as 32-bit machine words: \<^verbatim>\<open>1 - int((_U - 1) * (_U - 1))\<close>
  and \<^verbatim>\<open>1 - 2 * m * 2 * m\<close>, with every operation modulo \<open>2\<^sup>3\<^sup>2\<close>.
\<close>

definition last_divisor_32 :: "32 word \<Rightarrow> 32 word" where
  "last_divisor_32 U = 1 - (U - 1) * (U - 1)"

definition loop_divisor_32 :: "32 word \<Rightarrow> 32 word" where
  "loop_divisor_32 m = 1 - 2 * m * 2 * m"

definition quadrature_state :: "nat \<Rightarrow> EnvelopeProblemSOS" where
  "quadrature_state d =
     \<lparr>m_n = 1, m_d = d, m_L = d + 1, m_U = 2 * d + 1,
      m_input_in_interpolant_basis = True, m_use_weighted_polynomials = True,
      m_basis_polynomials = [], m_objectives_vector = [], m_polynomials_bounds = []\<rparr>"

text \<open>
  The value at \<open>x\<close> of the polynomial with coefficient vector \<open>p\<close>, lowest degree first
  (the evaluation of source lines 330 to 333), and the bound \<open>t\<close> on its degree.
\<close>

definition peval :: "vec \<Rightarrow> real \<Rightarrow> real" where
  "peval p x = (\<Sum>k < length p. p ! k * x ^ k)"

definition deg_le :: "nat \<Rightarrow> vec \<Rightarrow> bool" where
  "deg_le t p = (\<forall>k. t < k \<and> k < length p \<longrightarrow> p ! k = 0)"

text \<open>
  A state for coefficient input at \<open>d = 1\<close>: the nodes are \<open>1, 0, - 1\<close>, and the basis
  polynomials are \<open>(x\<^sup>2 + x) / 2\<close>, \<open>1 - x\<^sup>2\<close> and \<open>(x\<^sup>2 - x) / 2\<close>.
\<close>

definition coefficient_state :: EnvelopeProblemSOS where
  "coefficient_state =
     \<lparr>m_n = 1, m_d = 1, m_L = 2, m_U = 3,
      m_input_in_interpolant_basis = False, m_use_weighted_polynomials = True,
      m_basis_polynomials = [[0, 1 / 2, 1 / 2], [1, 0, - 1], [0, - (1 / 2), 1 / 2]],
      m_objectives_vector = [- (1 / 3), - (4 / 3), - (1 / 3)],
      m_polynomials_bounds = [[0, 0, 0]]\<rparr>"

text \<open>
  Sample values for the Eigen parameters, right for \<open>coefficient_state\<close>: the inverse of
  its transformation matrix is the Vandermonde matrix of the nodes \<open>1, 0, - 1\<close>, and the
  solution of \<open>Q * x = p\<close> is the vector of the values of \<open>p\<close> at the nodes. And a sample
  for the contents of a vector created without initial value.
\<close>

definition sample_inverse_entry :: "mat \<Rightarrow> nat \<Rightarrow> nat \<Rightarrow> real" where
  "sample_inverse_entry Q i j = [1, 0, - 1] ! i ^ j"

definition sample_solve_entry :: "mat \<Rightarrow> vec \<Rightarrow> nat \<Rightarrow> real" where
  "sample_solve_entry Q p i = peval p ([1, 0, - 1] ! i)"

definition fresh_zero :: "nat \<Rightarrow> real" where
  "fresh_zero i = 0"

text \<open>
  Modelled from the spec: the interpolation nodes, which the source takes from
  \<^verbatim>\<open>InterpolantDualSOSBarrier::get_basis\<close> (outside this file), are the \<open>U\<close> Chebyshev
  extrema of \<open>[- 1, 1]\<close>.
\<close>

definition chebyshev_extrema :: "nat \<Rightarrow> vec" where
  "chebyshev_extrema U = map (\<lambda>i. cos (real i * pi / real (U - 1))) [0..<U]"

text \<open>
  The matrix that \<open>get_transformation_matrix\<close> returns for a list of basis polynomials
  (source lines 397 to 404: entry \<open>(i, j)\<close> is coefficient \<open>i\<close> of basis polynomial \<open>j\<close>),
  and the property of a basis that \<open>calculate_basis_polynomials\<close> establishes: every
  polynomial has as many coefficients as there are polynomials, and polynomial \<open>i\<close> is 1 at
  node \<open>i\<close> and 0 at the other nodes, the nodes being pairwise distinct.
\<close>

definition transformation_matrix :: "vec list \<Rightarrow> mat" where
  "transformation_matrix bs = map (\<lambda>i. map (\<lambda>j. bs ! j ! i) [0..<length bs]) [0..<length bs]"

definition lagrange_basis :: "vec \<Rightarrow> vec list \<Rightarrow> bool" where
  "lagrange_basis pts bs =
     (length bs \<le> length pts \<and> distinct (take (length bs) pts) \<and>
      (\<forall>i < length bs. length (bs ! i) = length bs \<and>
         (\<forall>j < length bs. peval (bs ! i) (pts ! j) = (if j = i then 1 else 0))))"

section \<open>Properties of construct_SOS_instance\<close>

lemma bindE_Inr [simp]: "bindE (Inr x) f = f x"
  by (simp add: bindE_def)

lemma bindE_Inl [simp]: "bindE (Inl e) f = Inl e"
  by (simp add: bindE_def)

lemma assign_segment_Inr:
  assumes "start + len \<le> length v" "length w = len"
  shows "assign_segment v start len w = Inr (take start v @ w @ drop (start + len) v)"
  using assms by (simp add: assign_segment_def)

lemma seg_upd_length:
  "start + length w \<le> length v \<Longrightarrow> length (take start v @ w @ drop (start + length w) v) = length v"
  by simp

lemma seg_upd_nth:
  assumes "start + length w \<le> length v" "j < length v"
  shows "(take start v @ w @ drop (start + length w) v) ! j =
         (if start \<le> j \<and> j < start + length w then w ! (j - start) else v ! j)"
  using assms by (auto simp: nth_append min_def)

lemma assign_block_Inr:
  assumes "has_shape M R C" "has_shape B nr nc" "r + nr \<le> R" "c + nc \<le> C"
  shows "assign_block M r c nr nc B = Inr (block_upd M r c nr nc B)"
  using assms by (simp add: assign_block_def block_upd_def has_shape_def)

lemma block_upd_shape:
  assumes "has_shape M R C" "has_shape B nr nc" "r + nr \<le> R" "c + nc \<le> C"
  shows "has_shape (block_upd M r c nr nc B) R C"
  using assms by (auto simp: block_upd_def has_shape_def)

lemma block_upd_nth:
  assumes "has_shape M R C" "has_shape B nr nc" "r + nr \<le> R" "c + nc \<le> C" "i < R" "j < C"
  shows "block_upd M r c nr nc B ! i ! j =
         (if r \<le> i \<and> i < r + nr \<and> c \<le> j \<and> j < c + nc then B ! (i - r) ! (j - c) else M ! i ! j)"
proof -
  have li: "length (M ! i) = C" using assms by (simp add: has_shape_def)
  show ?thesis
  proof (cases "r \<le> i \<and> i < r + nr")
    case True
    then have lb: "length (B ! (i - r)) = nc" using assms by (auto simp: has_shape_def)
    have "block_upd M r c nr nc B ! i = take c (M ! i) @ (B ! (i - r)) @ drop (c + length (B ! (i - r))) (M ! i)"
      using True assms by (simp add: block_upd_def has_shape_def lb)
    then show ?thesis
      using seg_upd_nth[of c "B ! (i - r)" "M ! i" j] li lb assms True by simp
  next
    case False
    then show ?thesis using assms by (auto simp: block_upd_def has_shape_def)
  qed
qed

lemma Zero_mat_shape: "has_shape (Zero_mat r c) r c"
  by (simp add: Zero_mat_def has_shape_def)

lemma Zero_mat_nth: "i < r \<Longrightarrow> j < c \<Longrightarrow> Zero_mat r c ! i ! j = 0"
  by (simp add: Zero_mat_def)

lemma Ones_shape: "has_shape (Ones_asDiagonal k) k k"
  by (auto simp add: Ones_asDiagonal_def has_shape_def)

lemma Ones_nth: "i < k \<Longrightarrow> j < k \<Longrightarrow> Ones_asDiagonal k ! i ! j = (if i = j then 1 else 0)"
  by (simp add: Ones_asDiagonal_def)

lemma neg_Ones_shape: "has_shape (neg_mat (Ones_asDiagonal k)) k k"
  by (auto simp add: Ones_asDiagonal_def has_shape_def neg_mat_def neg_vec_def)

lemma neg_Ones_nth: "i < k \<Longrightarrow> j < k \<Longrightarrow> neg_mat (Ones_asDiagonal k) ! i ! j = (if i = j then -1 else 0)"
  by (simp add: Ones_asDiagonal_def neg_mat_def neg_vec_def)


lemma vec_sub_Inr: "length v = length w \<Longrightarrow> vec_sub v w = Inr (map2 (-) v w)"
  by (simp add: vec_sub_def)

lemma constraint_step_inv:
  assumes inv: "primal_inv st k cs"
    and k: "k < length (m_polynomials_bounds st) - 1"
    and len: "\<forall>p \<in> set (m_polynomials_bounds st). length p = m_U st"
  shows "\<exists>cs'. constraint_step st k cs = Inr cs' \<and> primal_inv st (Suc k) cs' \<and> cc cs' = cc cs"
proof -
  define N where "N = length (m_polynomials_bounds st)"
  define U where "U = m_U st"
  define A1 where "A1 = block_upd (cA cs) (k * U) 0 U U (neg_mat (Ones_asDiagonal U))"
  define A2 where "A2 = block_upd A1 (k * U) ((k + 1) * U) U U (Ones_asDiagonal U)"
  define rhs where "rhs = map2 (-) (m_polynomials_bounds st ! (k + 1)) (m_polynomials_bounds st ! 0)"
  define b1 where "b1 = take (k * U) (cb cs) @ rhs @ drop (k * U + U) (cb cs)"
  have shA: "has_shape (cA cs) ((N - 1) * U) (N * U)" and lb: "length (cb cs) = (N - 1) * U"
    using inv by (simp_all add: primal_inv_def N_def U_def Let_def)
  have kN: "k + 1 < N" "k < N - 1" using k by (simp_all add: N_def)
  have rowfit: "k * U + U \<le> (N - 1) * U"
  proof -
    have "(k + 1) * U \<le> (N - 1) * U" using kN by (intro mult_le_mono1) simp
    then show ?thesis by (simp add: algebra_simps)
  qed
  have colfit0: "0 + U \<le> N * U" using kN by (cases N) simp_all
  have colfit1: "(k + 1) * U + U \<le> N * U"
  proof -
    have "(k + 2) * U \<le> N * U" using kN by (intro mult_le_mono1) simp
    then show ?thesis by (simp add: algebra_simps)
  qed
  have shA1: "has_shape A1 ((N - 1) * U) (N * U)"
    unfolding A1_def by (rule block_upd_shape[OF shA neg_Ones_shape rowfit colfit0])
  have shA2: "has_shape A2 ((N - 1) * U) (N * U)"
    unfolding A2_def by (rule block_upd_shape[OF shA1 Ones_shape rowfit colfit1])
  have e1: "assign_block (cA cs) (k * U) 0 U U (neg_mat (Ones_asDiagonal U)) = Inr A1"
    unfolding A1_def by (rule assign_block_Inr[OF shA neg_Ones_shape rowfit colfit0])
  have e2: "assign_block A1 (k * U) ((k + 1) * U) U U (Ones_asDiagonal U) = Inr A2"
    unfolding A2_def by (rule assign_block_Inr[OF shA1 Ones_shape rowfit colfit1])
  have lk: "length (m_polynomials_bounds st ! (k + 1)) = U"
    and l0: "length (m_polynomials_bounds st ! 0) = U"
  proof -
    have "m_polynomials_bounds st ! (k + 1) \<in> set (m_polynomials_bounds st)"
      using kN by (intro nth_mem) (simp add: N_def)
    then show "length (m_polynomials_bounds st ! (k + 1)) = U" using len by (simp add: U_def)
    have "m_polynomials_bounds st ! 0 \<in> set (m_polynomials_bounds st)"
      using kN by (intro nth_mem) (auto simp add: N_def)
    then show "length (m_polynomials_bounds st ! 0) = U" using len by (simp add: U_def)
  qed
  have e3: "vec_sub (m_polynomials_bounds st ! (k + 1)) (m_polynomials_bounds st ! 0) = Inr rhs"
    unfolding rhs_def using lk l0 by (simp add: vec_sub_Inr)
  have lrhs: "length rhs = U" using lk l0 by (simp add: rhs_def)
  have e4: "assign_segment (cb cs) (k * U) U rhs = Inr b1"
    unfolding b1_def using lb rowfit lrhs by (simp add: assign_segment_Inr)
  have step: "constraint_step st k cs = Inr (cs\<lparr>cA := A2, cb := b1\<rparr>)"
    using e1 e2 e3 e4 by (simp add: constraint_step_def Let_def U_def[symmetric])
  have lb1: "length b1 = (N - 1) * U"
    using lb rowfit lrhs by (simp add: b1_def)
  have Aent: "A2 ! idx ! col = (if idx < Suc k * U then A_entry U idx col else 0)"
    if idx: "idx < (N - 1) * U" and col: "col < N * U" for idx col
  proof -
    have old: "cA cs ! idx ! col = (if idx < k * U then A_entry U idx col else 0)"
      using inv idx col by (simp add: primal_inv_def N_def U_def Let_def)
    have n1: "A1 ! idx ! col = (if k * U \<le> idx \<and> idx < k * U + U \<and> 0 \<le> col \<and> col < 0 + U
                then neg_mat (Ones_asDiagonal U) ! (idx - k * U) ! (col - 0) else cA cs ! idx ! col)"
      unfolding A1_def by (rule block_upd_nth[OF shA neg_Ones_shape rowfit colfit0 idx col])
    have n2: "A2 ! idx ! col = (if k * U \<le> idx \<and> idx < k * U + U \<and> (k + 1) * U \<le> col \<and> col < (k + 1) * U + U
                then Ones_asDiagonal U ! (idx - k * U) ! (col - (k + 1) * U) else A1 ! idx ! col)"
      unfolding A2_def by (rule block_upd_nth[OF shA1 Ones_shape rowfit colfit1 idx col])
    show ?thesis
    proof (cases "k * U \<le> idx \<and> idx < k * U + U")
      case True
      then obtain r where r: "idx = k * U + r" "r < U"
        by (metis add_less_cancel_left le_Suc_ex)
      have m: "idx mod U = r" using r by simp
      have lt: "idx < Suc k * U" using r by simp
      have nlt: "\<not> idx < k * U" using r by simp
      show ?thesis
      proof (cases "col < U")
        case True
        then have c2: "\<not> (k + 1) * U \<le> col" by simp
        have "A2 ! idx ! col = (if r = col then -1 else 0)"
          using n1 n2 r True c2 by (simp add: neg_Ones_nth)
        moreover have "col \<noteq> idx + U" using True by simp
        ultimately show ?thesis using lt m by (auto simp: A_entry_def)
      next
        case False
        note c1 = this
        show ?thesis
        proof (cases "(k + 1) * U \<le> col \<and> col < (k + 1) * U + U")
          case True
          then obtain s where s: "col = (k + 1) * U + s" "s < U"
            by (metis add_less_cancel_left le_Suc_ex)
          have "A2 ! idx ! col = (if r = s then 1 else 0)"
            using n2 r s by (simp add: Ones_nth)
          moreover have "col \<noteq> idx mod U" using c1 m r by simp
          moreover have "(col = idx + U) = (r = s)" using r s by (auto simp: algebra_simps)
          ultimately show ?thesis using lt by (simp add: A_entry_def)
        next
          case False
          then have "A2 ! idx ! col = 0"
            using n1 n2 c1 old nlt by auto
          moreover have "col \<noteq> idx mod U" using c1 m r by simp
          moreover have "col \<noteq> idx + U" using False r by (auto simp: algebra_simps)
          ultimately show ?thesis using lt by (simp add: A_entry_def)
        qed
      qed
    next
      case False
      then have "A2 ! idx ! col = cA cs ! idx ! col" using n1 n2 by auto
      moreover have "(idx < Suc k * U) = (idx < k * U)" using False by auto
      ultimately show ?thesis using old by simp
    qed
  qed
  have bent: "b1 ! idx = (if idx < Suc k * U then b_entry st idx else 0)"
    if idx: "idx < (N - 1) * U" for idx
  proof -
    have old: "cb cs ! idx = (if idx < k * U then b_entry st idx else 0)"
      using inv idx by (simp add: primal_inv_def N_def U_def Let_def)
    have n: "b1 ! idx = (if k * U \<le> idx \<and> idx < k * U + length rhs then rhs ! (idx - k * U) else cb cs ! idx)"
      unfolding b1_def using seg_upd_nth[of "k * U" rhs "cb cs" idx] lb lrhs rowfit idx by simp
    show ?thesis
    proof (cases "k * U \<le> idx \<and> idx < k * U + U")
      case True
      then obtain r where r: "idx = k * U + r" "r < U"
        by (metis add_less_cancel_left le_Suc_ex)
      have m: "idx mod U = r" "idx div U = k" using r by simp_all
      have "b1 ! idx = rhs ! r" using n r lrhs by simp
      also have "\<dots> = m_polynomials_bounds st ! (k + 1) ! r - m_polynomials_bounds st ! 0 ! r"
        using r lk l0 by (simp add: rhs_def)
      finally show ?thesis using r m by (simp add: b_entry_def U_def[symmetric])
    next
      case False
      then have "b1 ! idx = cb cs ! idx" using n lrhs by auto
      moreover have "(idx < Suc k * U) = (idx < k * U)" using False by auto
      ultimately show ?thesis using old by simp
    qed
  qed
  have "primal_inv st (Suc k) (cs\<lparr>cA := A2, cb := b1\<rparr>)"
    using shA2 lb1 Aent bent by (simp add: primal_inv_def N_def[symmetric] U_def[symmetric] Let_def)
  then show ?thesis using step by simp
qed


lemma constraint_loop_inv:
  assumes "primal_inv st k cs"
    and "k + m \<le> length (m_polynomials_bounds st) - 1"
    and "\<forall>p \<in> set (m_polynomials_bounds st). length p = m_U st"
  shows "\<exists>cs'. constraint_loop st [k..<k + m] cs = Inr cs' \<and> primal_inv st (k + m) cs' \<and> cc cs' = cc cs"
  using assms
proof (induction m arbitrary: k cs)
  case 0
  then show ?case by simp
next
  case (Suc m)
  have klt: "k < length (m_polynomials_bounds st) - 1" using Suc.prems(2) by simp
  obtain cs1 where s1: "constraint_step st k cs = Inr cs1" "primal_inv st (Suc k) cs1" "cc cs1 = cc cs"
    using constraint_step_inv[OF Suc.prems(1) klt Suc.prems(3)] by blast
  have "Suc k + m \<le> length (m_polynomials_bounds st) - 1" using Suc.prems(2) by simp
  from Suc.IH[OF s1(2) this Suc.prems(3)]
  obtain cs2 where s2: "constraint_loop st [Suc k..<Suc k + m] cs1 = Inr cs2"
      "primal_inv st (Suc k + m) cs2" "cc cs2 = cc cs1"
    by blast
  have "[k..<k + Suc m] = k # [Suc k..<Suc k + m]"
    by (simp add: upt_conv_Cons)
  then have "constraint_loop st [k..<k + Suc m] cs = Inr cs2"
    using s1(1) s2(1) by simp
  then show ?case using s2 s1(3) by simp
qed

lemma primal_inv_init:
  "primal_inv st 0
     \<lparr>cA = Zero_mat ((length (m_polynomials_bounds st) - 1) * m_U st) (length (m_polynomials_bounds st) * m_U st),
      cb = Zero_vec ((length (m_polynomials_bounds st) - 1) * m_U st), cc = c0\<rparr>"
  by (simp add: primal_inv_def Let_def Zero_mat_shape Zero_mat_nth Zero_vec_def)

lemma primal_constraints_inv:
  assumes N: "2 \<le> length (m_polynomials_bounds st)"
    and len: "\<forall>p \<in> set (m_polynomials_bounds st). length p = m_U st"
    and obj: "length (m_objectives_vector st) = m_U st"
  shows "\<exists>cs. primal_constraints st = Inr cs
           \<and> primal_inv st (length (m_polynomials_bounds st) - 1) cs
           \<and> cc cs = neg_vec (m_objectives_vector st)
                     @ Zero_vec ((length (m_polynomials_bounds st) - 1) * m_U st)"
proof -
  define N where "N = length (m_polynomials_bounds st)"
  define U where "U = m_U st"
  define c0 where "c0 = neg_vec (m_objectives_vector st) @ Zero_vec ((N - 1) * U)"
  have NU: "N * U = U + (N - 1) * U" using N by (cases N) (simp_all add: N_def)
  have c: "assign_segment (Zero_vec (N * U)) 0 U (neg_vec (m_objectives_vector st)) = Inr c0"
    using obj NU by (simp add: assign_segment_def Zero_vec_def neg_vec_def U_def c0_def)
  obtain cs where cs: "constraint_loop st [0..<0 + (N - 1)]
        \<lparr>cA = Zero_mat ((N - 1) * U) (N * U), cb = Zero_vec ((N - 1) * U), cc = c0\<rparr> = Inr cs"
      "primal_inv st (0 + (N - 1)) cs" "cc cs = c0"
    using constraint_loop_inv[OF primal_inv_init[of st c0], of "N - 1"] len
    by (auto simp: N_def U_def)
  have "primal_constraints st = Inr cs"
    using c cs(1) by (simp add: primal_constraints_def Let_def N_def[symmetric] U_def[symmetric])
  then show ?thesis using cs by (simp add: N_def U_def c0_def)
qed

lemma primal_blocks_when_sized:
  assumes N: "2 \<le> length (m_polynomials_bounds st)"
    and len: "\<forall>p \<in> set (m_polynomials_bounds st). length p = m_U st"
    and obj: "length (m_objectives_vector st) = m_U st"
  shows "\<exists>cs. primal_constraints st = Inr cs
    \<and> (\<forall>j < length (m_polynomials_bounds st) * m_U st.
          cc cs ! j = (if j < m_U st then - (m_objectives_vector st ! j) else 0))
    \<and> (\<forall>i < length (m_polynomials_bounds st) - 1. \<forall>r < m_U st.
       \<forall>j < length (m_polynomials_bounds st). \<forall>s < m_U st.
          cA cs ! (i * m_U st + r) ! (j * m_U st + s) =
            (if j = 0 then (if r = s then - 1 else 0)
             else if j = i + 1 then (if r = s then 1 else 0)
             else 0))
    \<and> (\<forall>i < length (m_polynomials_bounds st) - 1. \<forall>r < m_U st.
          cb cs ! (i * m_U st + r) =
            m_polynomials_bounds st ! (i + 1) ! r - m_polynomials_bounds st ! 0 ! r)"
proof -
  define N where "N = length (m_polynomials_bounds st)"
  define U where "U = m_U st"
  obtain cs where cs: "primal_constraints st = Inr cs" "primal_inv st (N - 1) cs"
      "cc cs = neg_vec (m_objectives_vector st) @ Zero_vec ((N - 1) * U)"
    using primal_constraints_inv[OF assms] by (auto simp: N_def U_def)
  have NU: "N * U = U + (N - 1) * U" using N by (cases N) (simp_all add: N_def)
  have pc: "\<forall>j < N * U. cc cs ! j = (if j < U then - (m_objectives_vector st ! j) else 0)"
  proof (intro allI impI)
    fix j assume j: "j < N * U"
    show "cc cs ! j = (if j < U then - (m_objectives_vector st ! j) else 0)"
    proof (cases "j < U")
      case True
      then show ?thesis using cs(3) obj by (simp add: nth_append neg_vec_def U_def)
    next
      case False
      then have "j - U < (N - 1) * U" using j NU by simp
      then show ?thesis using False cs(3) obj by (simp add: nth_append neg_vec_def Zero_vec_def U_def)
    qed
  qed
  have idx: "i * U + r < (N - 1) * U" if "i < N - 1" "r < U" for i r
  proof -
    have "i * U + r < (i + 1) * U" using that by simp
    also have "\<dots> \<le> (N - 1) * U" using that by (intro mult_le_mono1) simp
    finally show ?thesis .
  qed
  have col: "j * U + s < N * U" if "j < N" "s < U" for j s
  proof -
    have "j * U + s < (j + 1) * U" using that by simp
    also have "\<dots> \<le> N * U" using that by (intro mult_le_mono1) simp
    finally show ?thesis .
  qed
  have pA: "cA cs ! (i * U + r) ! (j * U + s) =
            (if j = 0 then (if r = s then - 1 else 0)
             else if j = i + 1 then (if r = s then 1 else 0) else 0)"
    if "i < N - 1" "r < U" "j < N" "s < U" for i r j s
  proof -
    have "cA cs ! (i * U + r) ! (j * U + s) = A_entry U (i * U + r) (j * U + s)"
      using cs(2) idx[OF that(1,2)] col[OF that(3,4)]
      by (simp add: primal_inv_def Let_def N_def[symmetric] U_def[symmetric])
    moreover have "(i * U + r) mod U = r" using that by simp
    moreover have "(j * U + s = r) = (j = 0 \<and> r = s)"
    proof (cases j)
      case 0 then show ?thesis by auto
    next
      case (Suc j') then show ?thesis using that(2) by auto
    qed
    moreover have "(j * U + s = i * U + r + U) = (j = i + 1 \<and> r = s)"
    proof
      assume e: "j * U + s = i * U + r + U"
      then have "j * U + s = (i + 1) * U + r" by (simp add: algebra_simps)
      then have "(j * U + s) div U = ((i + 1) * U + r) div U" by simp
      moreover have "(j * U + s) div U = j" using that by simp
      moreover have "((i + 1) * U + r) div U = i + 1" using that(2) by (simp del: mult_Suc)
      ultimately have "j = i + 1" by simp
      then show "j = i + 1 \<and> r = s" using e by simp
    qed simp
    ultimately show ?thesis by (auto simp: A_entry_def)
  qed
  have pb: "cb cs ! (i * U + r) = m_polynomials_bounds st ! (i + 1) ! r - m_polynomials_bounds st ! 0 ! r"
    if "i < N - 1" "r < U" for i r
  proof -
    have "cb cs ! (i * U + r) = b_entry st (i * U + r)"
      using cs(2) idx[OF that]
      by (simp add: primal_inv_def Let_def N_def[symmetric] U_def[symmetric])
    moreover have "(i * U + r) mod U = r" "(i * U + r) div U = i" using that by simp_all
    ultimately show ?thesis by (simp add: b_entry_def U_def[symmetric])
  qed
  show ?thesis
    using cs(1) pc pA pb unfolding N_def U_def by blast
qed


lemma bindE_eq_Inr: "bindE m f = Inr y \<longleftrightarrow> (\<exists>x. m = Inr x \<and> f x = Inr y)"
  by (cases m) simp_all

lemma constraint_step_sizes:
  assumes "constraint_step st k cs = Inr cs'"
  shows "length (m_polynomials_bounds st ! (k + 1)) = m_U st
       \<and> length (m_polynomials_bounds st ! 0) = m_U st"
  using assms
  by (auto simp: constraint_step_def Let_def bindE_eq_Inr vec_sub_def assign_segment_def
      split: if_splits)

lemma constraint_loop_sizes:
  assumes "constraint_loop st ks cs = Inr cs'" "k \<in> set ks"
  shows "length (m_polynomials_bounds st ! (k + 1)) = m_U st
       \<and> length (m_polynomials_bounds st ! 0) = m_U st"
  using assms
proof (induction ks arbitrary: cs)
  case Nil
  then show ?case by simp
next
  case (Cons j js)
  from Cons.prems(1) obtain cs1 where s: "constraint_step st j cs = Inr cs1"
      "constraint_loop st js cs1 = Inr cs'"
    by (auto simp: bindE_eq_Inr)
  show ?case
  proof (cases "k = j")
    case True
    then show ?thesis using constraint_step_sizes[OF s(1)] by simp
  next
    case False
    then have "k \<in> set js" using Cons.prems(2) by simp
    then show ?thesis by (rule Cons.IH[OF s(2)])
  qed
qed

lemma primal_constraints_sizes:
  assumes N: "2 \<le> length (m_polynomials_bounds st)"
    and ok: "primal_constraints st = Inr cs"
  shows "(\<forall>p \<in> set (m_polynomials_bounds st). length p = m_U st)
       \<and> length (m_objectives_vector st) = m_U st"
proof -
  define N where "N = length (m_polynomials_bounds st)"
  from ok obtain c0 where c0:
      "assign_segment (Zero_vec (N * m_U st)) 0 (m_U st) (neg_vec (m_objectives_vector st)) = Inr c0"
    and loop: "constraint_loop st [0..<N - 1]
        \<lparr>cA = Zero_mat ((N - 1) * m_U st) (N * m_U st), cb = Zero_vec ((N - 1) * m_U st), cc = c0\<rparr>
        = Inr cs"
    by (auto simp: primal_constraints_def Let_def bindE_eq_Inr N_def)
  have obj: "length (m_objectives_vector st) = m_U st"
    using c0 by (simp add: assign_segment_def neg_vec_def split: if_splits)
  have each: "length (m_polynomials_bounds st ! i) = m_U st" if "i < N" for i
  proof (cases i)
    case 0
    have "0 \<in> set [0..<N - 1]" using N by (simp add: N_def)
    then show ?thesis using constraint_loop_sizes[OF loop] 0 by blast
  next
    case (Suc k)
    then have "k \<in> set [0..<N - 1]" using that by simp
    then show ?thesis using constraint_loop_sizes[OF loop] Suc by simp
  qed
  have "\<forall>p \<in> set (m_polynomials_bounds st). length p = m_U st"
  proof
    fix p assume "p \<in> set (m_polynomials_bounds st)"
    then obtain i where "i < N" "p = m_polynomials_bounds st ! i"
      by (auto simp: in_set_conv_nth N_def)
    then show "length p = m_U st" using each by simp
  qed
  then show ?thesis using obj by simp
qed

text \<open>
  Claim C1. In every state with at least two registered polynomials the primal triple is
  built exactly when the registered polynomials and the objective vector have length \<open>U\<close>,
  and whenever it is built it has the block structure: \<open>c\<close> is minus the objective vector in
  its first \<open>U\<close> entries and zero after them; row-block \<open>i\<close> of \<open>A\<close> is minus the identity in
  column-block \<open>0\<close>, the identity in column-block \<open>i + 1\<close> and zero in every other
  column-block; row-block \<open>i\<close> of \<open>b\<close> is \<open>bound[i + 1] - bound[0]\<close>.
\<close>

theorem primal_constraints_blocks:
  assumes N: "2 \<le> length (m_polynomials_bounds st)"
  shows "((\<exists>cs. primal_constraints st = Inr cs) \<longleftrightarrow>
            (\<forall>p \<in> set (m_polynomials_bounds st). length p = m_U st)
            \<and> length (m_objectives_vector st) = m_U st)
    \<and> (\<forall>cs. primal_constraints st = Inr cs \<longrightarrow>
          (\<forall>j < length (m_polynomials_bounds st) * m_U st.
              cc cs ! j = (if j < m_U st then - (m_objectives_vector st ! j) else 0))
        \<and> (\<forall>i < length (m_polynomials_bounds st) - 1. \<forall>r < m_U st.
            \<forall>j < length (m_polynomials_bounds st). \<forall>s < m_U st.
              cA cs ! (i * m_U st + r) ! (j * m_U st + s) =
                (if j = 0 then (if r = s then - 1 else 0)
                 else if j = i + 1 then (if r = s then 1 else 0)
                 else 0))
        \<and> (\<forall>i < length (m_polynomials_bounds st) - 1. \<forall>r < m_U st.
              cb cs ! (i * m_U st + r) =
                m_polynomials_bounds st ! (i + 1) ! r - m_polynomials_bounds st ! 0 ! r))"
proof -
  have fwd: "(\<forall>p \<in> set (m_polynomials_bounds st). length p = m_U st)
            \<and> length (m_objectives_vector st) = m_U st"
    if "primal_constraints st = Inr cs" for cs
    using primal_constraints_sizes[OF N that] .
  have bwd: "\<exists>cs. primal_constraints st = Inr cs"
    if "(\<forall>p \<in> set (m_polynomials_bounds st). length p = m_U st)
            \<and> length (m_objectives_vector st) = m_U st"
    using primal_blocks_when_sized[OF N] that by blast
  have blocks: "(\<forall>j < length (m_polynomials_bounds st) * m_U st.
              cc cs ! j = (if j < m_U st then - (m_objectives_vector st ! j) else 0))
        \<and> (\<forall>i < length (m_polynomials_bounds st) - 1. \<forall>r < m_U st.
            \<forall>j < length (m_polynomials_bounds st). \<forall>s < m_U st.
              cA cs ! (i * m_U st + r) ! (j * m_U st + s) =
                (if j = 0 then (if r = s then - 1 else 0)
                 else if j = i + 1 then (if r = s then 1 else 0)
                 else 0))
        \<and> (\<forall>i < length (m_polynomials_bounds st) - 1. \<forall>r < m_U st.
              cb cs ! (i * m_U st + r) =
                m_polynomials_bounds st ! (i + 1) ! r - m_polynomials_bounds st ! 0 ! r)"
    if ok: "primal_constraints st = Inr cs" for cs
  proof -
    have sz: "\<forall>p \<in> set (m_polynomials_bounds st). length p = m_U st"
        "length (m_objectives_vector st) = m_U st"
      using fwd[OF ok] by simp_all
    obtain cs' where cs': "primal_constraints st = Inr cs'"
      and props: "(\<forall>j < length (m_polynomials_bounds st) * m_U st.
              cc cs' ! j = (if j < m_U st then - (m_objectives_vector st ! j) else 0))
        \<and> (\<forall>i < length (m_polynomials_bounds st) - 1. \<forall>r < m_U st.
            \<forall>j < length (m_polynomials_bounds st). \<forall>s < m_U st.
              cA cs' ! (i * m_U st + r) ! (j * m_U st + s) =
                (if j = 0 then (if r = s then - 1 else 0)
                 else if j = i + 1 then (if r = s then 1 else 0)
                 else 0))
        \<and> (\<forall>i < length (m_polynomials_bounds st) - 1. \<forall>r < m_U st.
              cb cs' ! (i * m_U st + r) =
                m_polynomials_bounds st ! (i + 1) ! r - m_polynomials_bounds st ! 0 ! r)"
      using primal_blocks_when_sized[OF N sz] by blast
    have "cs' = cs" using ok cs' by simp
    then show ?thesis using props by simp
  qed
  have iff: "(\<exists>cs. primal_constraints st = Inr cs) \<longleftrightarrow>
            (\<forall>p \<in> set (m_polynomials_bounds st). length p = m_U st)
            \<and> length (m_objectives_vector st) = m_U st"
    using fwd bwd by blast
  show ?thesis
    by (rule conjI[OF iff]) (use blocks in blast)
qed

text \<open>Claim C1 at \<open>example_state\<close> (\<open>d = 1\<close>, two polynomials).\<close>

theorem primal_constraints_blocks_witness:
  "\<exists>cs. primal_constraints example_state = Inr cs
     \<and> cc cs ! 1 = 4 / 3 \<and> cc cs ! 4 = 0
     \<and> cA cs ! 1 ! 1 = - 1 \<and> cA cs ! 1 ! 4 = 1 \<and> cA cs ! 1 ! 2 = 0
     \<and> cb cs ! 2 = 1"
proof -
  have h1: "2 \<le> length (m_polynomials_bounds example_state)"
    by (simp add: example_state_def)
  have h2: "(\<forall>p \<in> set (m_polynomials_bounds example_state). length p = m_U example_state)
            \<and> length (m_objectives_vector example_state) = m_U example_state"
    by (simp add: example_state_def)
  note t = primal_constraints_blocks[OF h1]
  from t h2 obtain cs where cs: "primal_constraints example_state = Inr cs" by blast
  from t cs have
    c: "\<forall>j < length (m_polynomials_bounds example_state) * m_U example_state.
          cc cs ! j = (if j < m_U example_state then - (m_objectives_vector example_state ! j) else 0)"
    and A: "\<forall>i < length (m_polynomials_bounds example_state) - 1. \<forall>r < m_U example_state.
            \<forall>j < length (m_polynomials_bounds example_state). \<forall>s < m_U example_state.
              cA cs ! (i * m_U example_state + r) ! (j * m_U example_state + s) =
                (if j = 0 then (if r = s then - 1 else 0)
                 else if j = i + 1 then (if r = s then 1 else 0)
                 else 0)"
    and b: "\<forall>i < length (m_polynomials_bounds example_state) - 1. \<forall>r < m_U example_state.
              cb cs ! (i * m_U example_state + r) =
                m_polynomials_bounds example_state ! (i + 1) ! r
                - m_polynomials_bounds example_state ! 0 ! r"
    by blast+
  have sel: "length (m_polynomials_bounds example_state) = 2" "m_U example_state = 3"
      "m_objectives_vector example_state = [- (1 / 3), - (4 / 3), - (1 / 3)]"
      "m_polynomials_bounds example_state = [[0, 0, 0], [- 1, 0, 1]]"
    by (simp_all add: example_state_def)
  have "cc cs ! 1 = 4 / 3" "cc cs ! 4 = 0"
    using c[rule_format, of 1] c[rule_format, of 4] by (simp_all add: sel)
  moreover have "cA cs ! 1 ! 1 = - 1" "cA cs ! 1 ! 4 = 1" "cA cs ! 1 ! 2 = 0"
    using A[rule_format, of 0 1 0 1] A[rule_format, of 0 1 1 1] A[rule_format, of 0 1 0 2]
    by (simp_all add: sel numeral_2_eq_2)
  moreover have "cb cs ! 2 = 1"
    using b[rule_format, of 0 2] by (simp add: sel numeral_2_eq_2)
  ultimately show ?thesis using cs by blast
qed

lemma product_barrier_foldl:
  "foldl (\<lambda>productBarrier poly_idx. add_barrier productBarrier b) (ProductBarrier bs) xs
     = ProductBarrier (bs @ replicate (length xs) b)"
  by (induction xs arbitrary: bs) (simp_all add: replicate_app_Cons_same)

lemma product_barrier_of_eq:
  "product_barrier_of st = ProductBarrier (replicate (length (m_polynomials_bounds st)) (sum_barrier_of st))"
  by (simp add: product_barrier_of_def product_barrier_foldl)

lemma sum_barrier_of_eq:
  "sum_barrier_of st = SumBarrier (m_U st)
      (InterpolantDualSOSBarrier (m_d st) None #
       (if m_use_weighted_polynomials st
        then [InterpolantDualSOSBarrier (m_d st) (Some [1, 0, - 1])] else []))"
  by (simp add: sum_barrier_of_def)

lemma instance_shape_when_sized:
  assumes N: "2 \<le> length (m_polynomials_bounds st)"
    and len: "\<forall>p \<in> set (m_polynomials_bounds st). length p = m_U st"
    and obj: "length (m_objectives_vector st) = m_U st"
  shows "\<exists>cs. primal_constraints st = Inr cs
    \<and> length (cA cs) = (length (m_polynomials_bounds st) - 1) * m_U st
    \<and> (\<forall>row \<in> set (cA cs). length row = length (m_polynomials_bounds st) * m_U st)
    \<and> length (cb cs) = (length (m_polynomials_bounds st) - 1) * m_U st
    \<and> length (cc cs) = length (m_polynomials_bounds st) * m_U st
    \<and> snd (construct_SOS_instance dual_system st) =
        Inr \<lparr>constraints = dual_system cs,
             barrier = ProductBarrier (replicate (length (m_polynomials_bounds st))
               (SumBarrier (m_U st)
                  (InterpolantDualSOSBarrier (m_d st) None #
                   (if m_use_weighted_polynomials st
                    then [InterpolantDualSOSBarrier (m_d st) (Some [1, 0, - 1])] else []))))\<rparr>"
proof -
  define N where "N = length (m_polynomials_bounds st)"
  obtain cs where cs: "primal_constraints st = Inr cs" "primal_inv st (N - 1) cs"
      "cc cs = neg_vec (m_objectives_vector st) @ Zero_vec ((N - 1) * m_U st)"
    using primal_constraints_inv[OF assms] by (auto simp: N_def)
  have NU: "N * m_U st = m_U st + (N - 1) * m_U st" using N by (cases N) (simp_all add: N_def)
  have shape: "has_shape (cA cs) ((N - 1) * m_U st) (N * m_U st)" "length (cb cs) = (N - 1) * m_U st"
    using cs(2) by (simp_all add: primal_inv_def Let_def N_def)
  have lc: "length (cc cs) = N * m_U st"
    using cs(3) obj NU by (simp add: neg_vec_def Zero_vec_def)
  have "snd (construct_SOS_instance dual_system st) =
        Inr \<lparr>constraints = dual_system cs, barrier = product_barrier_of st\<rparr>"
    using N cs(1) by (auto simp add: construct_SOS_instance_def Let_def)
  then show ?thesis
    using cs(1) shape lc unfolding has_shape_def N_def product_barrier_of_eq sum_barrier_of_eq
    by blast
qed

text \<open>
  Claim C2. In every state with at least two registered polynomials the call returns an
  instance exactly when the registered polynomials and the objective vector have length
  \<open>U\<close>. The instance then holds the dual system of a primal triple in which \<open>A\<close> has
  \<open>(N - 1) * U\<close> rows of \<open>N * U\<close> entries, \<open>b\<close> has \<open>(N - 1) * U\<close> entries and \<open>c\<close> has
  \<open>N * U\<close>, and its barrier is a product of exactly \<open>N\<close> sum-barriers, each holding one SOS
  barrier of degree \<open>d\<close> and, exactly when weighting is on, a second one of degree \<open>d\<close> with
  the weight polynomial \<open>1 - x\<^sup>2\<close>.
\<close>

theorem construct_SOS_instance_shape:
  assumes N: "2 \<le> length (m_polynomials_bounds st)"
  shows "((\<exists>inst. snd (construct_SOS_instance dual_system st) = Inr inst) \<longleftrightarrow>
            (\<forall>p \<in> set (m_polynomials_bounds st). length p = m_U st)
            \<and> length (m_objectives_vector st) = m_U st)
    \<and> (\<forall>inst. snd (construct_SOS_instance dual_system st) = Inr inst \<longrightarrow>
          (\<exists>cs. primal_constraints st = Inr cs
            \<and> length (cA cs) = (length (m_polynomials_bounds st) - 1) * m_U st
            \<and> (\<forall>row \<in> set (cA cs). length row = length (m_polynomials_bounds st) * m_U st)
            \<and> length (cb cs) = (length (m_polynomials_bounds st) - 1) * m_U st
            \<and> length (cc cs) = length (m_polynomials_bounds st) * m_U st
            \<and> inst =
                \<lparr>constraints = dual_system cs,
                 barrier = ProductBarrier (replicate (length (m_polynomials_bounds st))
                   (SumBarrier (m_U st)
                      (InterpolantDualSOSBarrier (m_d st) None #
                       (if m_use_weighted_polynomials st
                        then [InterpolantDualSOSBarrier (m_d st) (Some [1, 0, - 1])] else []))))\<rparr>))"
proof -
  have ne: "m_polynomials_bounds st \<noteq> []" "length (m_polynomials_bounds st) \<noteq> 1"
    using N by auto
  have unfold: "snd (construct_SOS_instance dual_system st) =
      (case primal_constraints st of Inl e \<Rightarrow> Inl e
       | Inr cs \<Rightarrow> Inr \<lparr>constraints = dual_system cs, barrier = product_barrier_of st\<rparr>)"
    using ne by (cases "primal_constraints st") (simp_all add: construct_SOS_instance_def Let_def)
  have ret: "\<exists>cs. primal_constraints st = Inr cs"
    if "snd (construct_SOS_instance dual_system st) = Inr inst" for inst
    using that unfolding unfold by (cases "primal_constraints st") simp_all
  have sized: "(\<forall>p \<in> set (m_polynomials_bounds st). length p = m_U st)
            \<and> length (m_objectives_vector st) = m_U st"
    if "snd (construct_SOS_instance dual_system st) = Inr inst" for inst
    using ret[OF that] primal_constraints_sizes[OF N] by blast
  have bwd: "\<exists>inst. snd (construct_SOS_instance dual_system st) = Inr inst"
    if "(\<forall>p \<in> set (m_polynomials_bounds st). length p = m_U st)
            \<and> length (m_objectives_vector st) = m_U st"
    using instance_shape_when_sized[OF N, of dual_system] that by blast
  have shape: "\<exists>cs. primal_constraints st = Inr cs
            \<and> length (cA cs) = (length (m_polynomials_bounds st) - 1) * m_U st
            \<and> (\<forall>row \<in> set (cA cs). length row = length (m_polynomials_bounds st) * m_U st)
            \<and> length (cb cs) = (length (m_polynomials_bounds st) - 1) * m_U st
            \<and> length (cc cs) = length (m_polynomials_bounds st) * m_U st
            \<and> inst =
                \<lparr>constraints = dual_system cs,
                 barrier = ProductBarrier (replicate (length (m_polynomials_bounds st))
                   (SumBarrier (m_U st)
                      (InterpolantDualSOSBarrier (m_d st) None #
                       (if m_use_weighted_polynomials st
                        then [InterpolantDualSOSBarrier (m_d st) (Some [1, 0, - 1])] else []))))\<rparr>"
    if ok: "snd (construct_SOS_instance dual_system st) = Inr inst" for inst
  proof -
    have sz: "\<forall>p \<in> set (m_polynomials_bounds st). length p = m_U st"
        "length (m_objectives_vector st) = m_U st"
      using sized[OF ok] by simp_all
    obtain cs where cs: "primal_constraints st = Inr cs"
        "length (cA cs) = (length (m_polynomials_bounds st) - 1) * m_U st"
        "\<forall>row \<in> set (cA cs). length row = length (m_polynomials_bounds st) * m_U st"
        "length (cb cs) = (length (m_polynomials_bounds st) - 1) * m_U st"
        "length (cc cs) = length (m_polynomials_bounds st) * m_U st"
        "snd (construct_SOS_instance dual_system st) =
           Inr \<lparr>constraints = dual_system cs,
                 barrier = ProductBarrier (replicate (length (m_polynomials_bounds st))
                   (SumBarrier (m_U st)
                      (InterpolantDualSOSBarrier (m_d st) None #
                       (if m_use_weighted_polynomials st
                        then [InterpolantDualSOSBarrier (m_d st) (Some [1, 0, - 1])] else []))))\<rparr>"
      using instance_shape_when_sized[OF N sz, of dual_system] by blast
    have "inst = \<lparr>constraints = dual_system cs,
                 barrier = ProductBarrier (replicate (length (m_polynomials_bounds st))
                   (SumBarrier (m_U st)
                      (InterpolantDualSOSBarrier (m_d st) None #
                       (if m_use_weighted_polynomials st
                        then [InterpolantDualSOSBarrier (m_d st) (Some [1, 0, - 1])] else []))))\<rparr>"
      using ok cs(6) by simp
    then show ?thesis using cs(1-5) by blast
  qed
  have iff: "(\<exists>inst. snd (construct_SOS_instance dual_system st) = Inr inst) \<longleftrightarrow>
            (\<forall>p \<in> set (m_polynomials_bounds st). length p = m_U st)
            \<and> length (m_objectives_vector st) = m_U st"
    using sized bwd by blast
  show ?thesis
    by (rule conjI[OF iff]) (use shape in blast)
qed

text \<open>Claim C2 at \<open>example_state\<close>.\<close>

theorem construct_SOS_instance_shape_witness:
  "\<exists>inst cs. snd (construct_SOS_instance id example_state) = Inr inst
    \<and> primal_constraints example_state = Inr cs
    \<and> length (cA cs) = 3 \<and> (\<forall>row \<in> set (cA cs). length row = 6)
    \<and> length (cb cs) = 3 \<and> length (cc cs) = 6
    \<and> barrier inst =
        ProductBarrier
          [SumBarrier 3 [InterpolantDualSOSBarrier 1 None, InterpolantDualSOSBarrier 1 (Some [1, 0, - 1])],
           SumBarrier 3 [InterpolantDualSOSBarrier 1 None, InterpolantDualSOSBarrier 1 (Some [1, 0, - 1])]]"
proof -
  have h1: "2 \<le> length (m_polynomials_bounds example_state)"
    by (simp add: example_state_def)
  have h2: "(\<forall>p \<in> set (m_polynomials_bounds example_state). length p = m_U example_state)
            \<and> length (m_objectives_vector example_state) = m_U example_state"
    by (simp add: example_state_def)
  note t = construct_SOS_instance_shape[OF h1, of id]
  from t h2 obtain inst where inst: "snd (construct_SOS_instance id example_state) = Inr inst"
    by blast
  have sel: "length (m_polynomials_bounds example_state) = 2" "m_U example_state = 3"
      "m_d example_state = 1" "m_use_weighted_polynomials example_state"
    by (simp_all add: example_state_def)
  from t inst obtain cs where cs: "primal_constraints example_state = Inr cs"
      "length (cA cs) = (length (m_polynomials_bounds example_state) - 1) * m_U example_state"
      "\<forall>row \<in> set (cA cs). length row = length (m_polynomials_bounds example_state) * m_U example_state"
      "length (cb cs) = (length (m_polynomials_bounds example_state) - 1) * m_U example_state"
      "length (cc cs) = length (m_polynomials_bounds example_state) * m_U example_state"
      "inst = \<lparr>constraints = id cs,
               barrier = ProductBarrier (replicate (length (m_polynomials_bounds example_state))
                   (SumBarrier (m_U example_state)
                      (InterpolantDualSOSBarrier (m_d example_state) None #
                       (if m_use_weighted_polynomials example_state
                        then [InterpolantDualSOSBarrier (m_d example_state) (Some [1, 0, - 1])]
                        else []))))\<rparr>"
    by blast
  have "barrier inst = ProductBarrier
          [SumBarrier 3 [InterpolantDualSOSBarrier 1 None, InterpolantDualSOSBarrier 1 (Some [1, 0, - 1])],
           SumBarrier 3 [InterpolantDualSOSBarrier 1 None, InterpolantDualSOSBarrier 1 (Some [1, 0, - 1])]]"
    using cs(6) by (simp add: sel numeral_2_eq_2)
  moreover have "length (cA cs) = 3" "\<forall>row \<in> set (cA cs). length row = 6"
      "length (cb cs) = 3" "length (cc cs) = 6"
    using cs(2-5) by (simp_all add: sel)
  ultimately show ?thesis using inst cs(1) by blast
qed

text \<open>
  Claim C4 as stated fails: with one registered polynomial the call writes a line at warning
  level and ends the process with status 1, and the outcome with no polynomial is the same
  process exit.
\<close>

theorem construct_SOS_instance_exit_same:
  "construct_SOS_instance id single_state =
     ([Log LevelWarn ''Instance trivial. Please detrivialize.'' []], Inl (ProcessExit 1))
   \<and> snd (construct_SOS_instance id empty_state) = snd (construct_SOS_instance id single_state)"
  by (simp add: construct_SOS_instance_def single_state_def empty_state_def example_state_def)

text \<open>
  Claim C4, amended. With no registered polynomial the call logs the error
  \<open>Please provide a polynomial.\<close> and ends the process with exit status 1; with exactly one it
  logs the warning \<open>Instance trivial. Please detrivialize.\<close> and ends the process with exit
  status 1; with at least two polynomials of length \<open>U\<close> and an objective of length \<open>U\<close> it
  returns the instance made of the dualised primal triple and the product barrier.
\<close>

theorem construct_SOS_instance_outcomes:
  "(length (m_polynomials_bounds st) = 0 \<longrightarrow>
      construct_SOS_instance dual_system st =
        ([Log LevelError ''Please provide a polynomial.'' []], Inl (ProcessExit 1)))
   \<and> (length (m_polynomials_bounds st) = 1 \<longrightarrow>
      construct_SOS_instance dual_system st =
        ([Log LevelWarn ''Instance trivial. Please detrivialize.'' []], Inl (ProcessExit 1)))
   \<and> (2 \<le> length (m_polynomials_bounds st)
        \<and> (\<forall>p \<in> set (m_polynomials_bounds st). length p = m_U st)
        \<and> length (m_objectives_vector st) = m_U st \<longrightarrow>
      (\<exists>cs. primal_constraints st = Inr cs \<and>
         construct_SOS_instance dual_system st =
           ([Log LevelInfo ''Original SOS instance created.'' [],
             Log LevelInfo ''Dual formulation created.'' []],
            Inr \<lparr>constraints = dual_system cs, barrier = product_barrier_of st\<rparr>)))"
proof (intro conjI impI)
  assume h: "2 \<le> length (m_polynomials_bounds st)
        \<and> (\<forall>p \<in> set (m_polynomials_bounds st). length p = m_U st)
        \<and> length (m_objectives_vector st) = m_U st"
  then obtain cs where cs: "primal_constraints st = Inr cs"
    using primal_constraints_inv[of st] by blast
  then show "\<exists>cs. primal_constraints st = Inr cs \<and>
         construct_SOS_instance dual_system st =
           ([Log LevelInfo ''Original SOS instance created.'' [],
             Log LevelInfo ''Dual formulation created.'' []],
            Inr \<lparr>constraints = dual_system cs, barrier = product_barrier_of st\<rparr>)"
    using h by (auto simp add: construct_SOS_instance_def Let_def)
qed (simp_all add: construct_SOS_instance_def)

text \<open>Claim C4, amended, at the states with zero, one and two polynomials.\<close>

theorem construct_SOS_instance_outcomes_witness:
  "construct_SOS_instance id empty_state =
        ([Log LevelError ''Please provide a polynomial.'' []], Inl (ProcessExit 1))
   \<and> construct_SOS_instance id single_state =
        ([Log LevelWarn ''Instance trivial. Please detrivialize.'' []], Inl (ProcessExit 1))
   \<and> (\<exists>cs. primal_constraints example_state = Inr cs \<and>
         construct_SOS_instance id example_state =
           ([Log LevelInfo ''Original SOS instance created.'' [],
             Log LevelInfo ''Dual formulation created.'' []],
            Inr \<lparr>constraints = cs, barrier = product_barrier_of example_state\<rparr>))"
  using construct_SOS_instance_outcomes[of empty_state id]
        construct_SOS_instance_outcomes[of single_state id]
        construct_SOS_instance_outcomes[of example_state id]
  by (simp add: empty_state_def single_state_def example_state_def)


section \<open>Properties of get_clenshaw_curtis_integrals\<close>

lemma length_Zero_vec: "length (Zero_vec k) = k"
  by (simp add: Zero_vec_def)

lemma nth_Zero_vec: "i < k \<Longrightarrow> Zero_vec k ! i = 0"
  by (simp add: Zero_vec_def)

lemma fdiv_Inr: "y \<noteq> 0 \<Longrightarrow> fdiv x y = Inr (x / y)"
  by (simp add: fdiv_def)

lemma sequenceE_map_Inr:
  "(\<And>x. x \<in> set xs \<Longrightarrow> f x = Inr (g x)) \<Longrightarrow> sequenceE (map f xs) = Inr (map g xs)"
  by (induction xs) simp_all

lemma cosine_entry_Inr:
  assumes "1 \<le> d"
  shows "cosine_entry (d + 1) k n =
         Inr (cos (real (k * n) * pi / real d) * (if n = 0 \<or> n = d then 1 / 2 else 1))"
  using assms by (simp add: cosine_entry_def fdiv_Inr)

lemma cosine_matrix_closed:
  assumes d: "1 \<le> d"
  shows "cosine_matrix (d + 1) = Inr (map (\<lambda>k. map (\<lambda>n. Dval d k n) [0..<d + 1]) [0..<d + 1])"
proof -
  let ?e = "\<lambda>k n. cos (real (k * n) * pi / real d) * (if n = 0 \<or> n = d then 1 / 2 else 1)"
  have rows: "sequenceE (map (\<lambda>n. cosine_entry (d + 1) k n) [0..<d + 1]) = Inr (map (?e k) [0..<d + 1])" for k
    by (rule sequenceE_map_Inr) (rule cosine_entry_Inr[OF d])
  have all: "sequenceE (map (\<lambda>k. sequenceE (map (\<lambda>n. cosine_entry (d + 1) k n) [0..<d + 1])) [0..<d + 1])
             = Inr (map (\<lambda>k. map (?e k) [0..<d + 1]) [0..<d + 1])"
    by (rule sequenceE_map_Inr) (rule rows)
  have divrow: "sequenceE (map (\<lambda>x. fdiv x (real d)) row) = Inr (map (\<lambda>x. x / real d) row)" for row
    by (rule sequenceE_map_Inr) (use d in \<open>simp add: fdiv_Inr\<close>)
  have divall: "sequenceE (map (\<lambda>row. sequenceE (map (\<lambda>x. fdiv x (real d)) row)) D)
             = Inr (map (\<lambda>row. map (\<lambda>x. x / real d) row) D)" for D
    by (rule sequenceE_map_Inr) (rule divrow)
  show ?thesis
    using all divall by (simp add: cosine_matrix_def Dval_def comp_def del: upt_Suc)
qed

lemma int_divisor_nonzero: "1 - 2 * int m * 2 * int m \<noteq> 0"
proof -
  have "even (2 * int m * 2 * int m)" by simp
  then have "2 * int m * 2 * int m \<noteq> 1" by (metis odd_one)
  then show ?thesis by simp
qed

lemma fourier_divisor_nonzero: "real_of_int (1 - 2 * int m * 2 * int m) \<noteq> 0"
  using int_divisor_nonzero[of m] by (simp only: of_int_eq_0_iff not_False_eq_True)

lemma fourier_divisor_nonzero_real: "1 - 4 * real m * real m \<noteq> 0"
proof -
  have "real_of_int (1 - 2 * int m * 2 * int m) = 1 - 4 * real m * real m" by simp
  then show ?thesis using fourier_divisor_nonzero[of m] by simp
qed

lemma last_divisor_nonzero: "real_of_int (1 - int (2 * d * (2 * d))) \<noteq> 0"
proof -
  have "real_of_int (1 - int (2 * d * (2 * d))) = 1 - 4 * real d * real d" by simp
  then show ?thesis using fourier_divisor_nonzero_real[of d] by simp
qed

lemma last_divisor_nonzero_real: "1 - 4 * (real d * real d) \<noteq> 0"
  using fourier_divisor_nonzero_real[of d] by (simp add: mult.assoc)

lemma fdiv_fourier: "fdiv x (1 - 4 * real m * real m) = Inr (x / (1 - 4 * real m * real m))"
  using fourier_divisor_nonzero_real[of m] by (simp only: fdiv_def if_False)

lemma fdiv_last: "fdiv x (1 - 4 * (real d * real d)) = Inr (x / (1 - 4 * (real d * real d)))"
  using last_divisor_nonzero_real[of d] by (simp only: fdiv_def if_False)

lemma fourier_loop_closed:
  "fourier_loop ms F =
     Inr (foldl (\<lambda>F m. F[m := 2 / real_of_int (1 - 2 * int m * 2 * int m)]) F ms)"
  by (induction ms arbitrary: F) (simp_all add: fdiv_fourier)

lemma foldl_update_length:
  "length (foldl (\<lambda>F m. F[m := g m]) F ms) = length F"
  by (induction ms arbitrary: F) simp_all

lemma foldl_update_nth:
  "i < length F \<Longrightarrow> foldl (\<lambda>F m. F[m := g m]) F ms ! i = (if i \<in> set ms then g i else F ! i)"
proof (induction ms arbitrary: F)
  case Nil
  then show ?case by simp
next
  case (Cons m ms)
  then show ?case by (auto simp: nth_list_update)
qed

lemma fourier_coefficients_closed:
  assumes d: "1 \<le> d"
  shows "fourier_coefficients (d + 1) (2 * d + 1) = Inr (map (Fval d) [0..<d + 1])"
proof -
  let ?g = "\<lambda>m. 2 / real_of_int (1 - 2 * int m * 2 * int m)"
  let ?x = "1 / real_of_int (1 - int (2 * d * (2 * d)))"
  let ?Z = "(Zero_vec (d + 1))[0 := 1, d := ?x]"
  let ?F = "foldl (\<lambda>F m. F[m := ?g m]) ?Z [1..<d]"
  have e: "fourier_coefficients (d + 1) (2 * d + 1) = Inr ?F"
    by (simp add: fourier_coefficients_def fdiv_last fourier_loop_closed)
  have l: "length ?F = d + 1" by (simp add: foldl_update_length length_Zero_vec)
  have n: "?F ! i = Fval d i" if "i < d + 1" for i
  proof -
    have "?F ! i = (if i \<in> set [1..<d] then ?g i else ?Z ! i)"
      by (rule foldl_update_nth) (use that in \<open>simp add: length_Zero_vec\<close>)
    moreover have "?Z ! i = (if i = d then ?x else if i = 0 then 1 else 0)"
      using that by (simp add: length_Zero_vec nth_Zero_vec nth_list_update)
    ultimately show ?thesis using that d by (auto simp: Fval_def)
  qed
  have "?F = map (Fval d) [0..<d + 1]"
    by (rule nth_equalityI) (use l n in \<open>auto simp del: upt_Suc\<close>)
  then show ?thesis using e by simp
qed

lemma transpose_closed:
  "transpose_mat (map (\<lambda>k. map (\<lambda>n. f k n) [0..<Suc d]) [0..<Suc d])
     = map (\<lambda>n. map (\<lambda>k. f k n) [0..<Suc d]) [0..<Suc d]"
proof -
  have c: "cols (map (\<lambda>k. map (\<lambda>n. f k n) [0..<Suc d]) [0..<Suc d]) = Suc d"
    by (simp add: cols_def upt_conv_Cons del: upt_Suc)
  show ?thesis
    unfolding transpose_mat_def c
    by (rule map_cong[OF refl]) (simp add: comp_def del: upt_Suc)
qed

lemma dot_closed:
  "sum_list (map2 (*) (map f [0..<m]) (map g [0..<m])) = (\<Sum>k < m. f k * g k)"
proof -
  have "map2 (*) (map f [0..<m]) (map g [0..<m]) = map (\<lambda>k. f k * g k) [0..<m]"
    by (simp add: zip_map_map zip_same_conv_map comp_def)
  then show ?thesis
    by (simp add: interv_sum_list_conv_sum_set_nat atLeast0LessThan)
qed

lemma weights_closed:
  assumes d: "1 \<le> d"
  shows "clenshaw_curtis_weights (d + 1) (2 * d + 1) =
         Inr (map (wval d) [0..<d] @ [wval d d * 2] @ rev (map (wval d) [0..<d]))"
proof -
  let ?D = "map (\<lambda>k. map (\<lambda>n. Dval d k n) [0..<Suc d]) [0..<Suc d]"
  let ?F = "map (Fval d) [0..<Suc d]"
  let ?w = "map (wval d) [0..<Suc d]"
  have mv: "mat_vec (transpose_mat ?D) ?F = Inr ?w"
  proof -
    have "mat_vec (transpose_mat ?D) ?F =
          Inr (map (\<lambda>row. sum_list (map2 (*) row ?F)) (map (\<lambda>n. map (\<lambda>k. Dval d k n) [0..<Suc d]) [0..<Suc d]))"
      unfolding transpose_closed by (simp add: mat_vec_def del: upt_Suc)
    also have "\<dots> = Inr ?w"
      by (simp add: comp_def dot_closed wval_def del: upt_Suc)
    finally show ?thesis .
  qed
  let ?w1 = "?w @ replicate d 0"
  have a1: "assign_segment (Zero_vec (2 * d + 1)) 0 (d + 1) ?w = Inr ?w1"
    by (simp add: assign_segment_def Zero_vec_def del: upt_Suc)
  have s1: "segment ?w1 0 d = Inr (map (wval d) [0..<d])"
    by (simp add: segment_def take_map del: upt_Suc)
  let ?w2 = "?w @ rev (map (wval d) [0..<d])"
  have a2: "assign_segment ?w1 (d + 1) d (rev (map (wval d) [0..<d])) = Inr ?w2"
    by (simp add: assign_segment_def del: upt_Suc)
  have l2: "d < length ?w2" by simp
  have n2: "?w2 ! d = wval d d" by (simp add: nth_append del: upt_Suc)
  have u2: "?w2[d := wval d d * 2] = map (wval d) [0..<d] @ [wval d d * 2] @ rev (map (wval d) [0..<d])"
    by (simp add: list_update_append)
  show ?thesis
    unfolding clenshaw_curtis_weights_def
    using cosine_matrix_closed[OF d] fourier_coefficients_closed[OF d] mv a1 s1 a2 l2 n2 u2
    by (simp del: upt_Suc)
qed


lemma cos_telescope:
  fixes t :: real
  shows "2 * sin (t / 2) * (\<Sum>n \<le> m. cos (real n * t)) = sin ((real m + 1 / 2) * t) + sin (t / 2)"
proof (induction m)
  case 0
  then show ?case by simp
next
  case (Suc m)
  have "2 * sin (t / 2) * cos (real (Suc m) * t)
        = sin (real (Suc m) * t + t / 2) - sin (real (Suc m) * t - t / 2)"
    by (simp add: sin_add sin_diff)
  moreover have "real (Suc m) * t + t / 2 = (real (Suc m) + 1 / 2) * t" by (simp add: algebra_simps)
  moreover have "real (Suc m) * t - t / 2 = (real m + 1 / 2) * t" by (simp add: algebra_simps)
  ultimately have "2 * sin (t / 2) * cos (real (Suc m) * t)
        = sin ((real (Suc m) + 1 / 2) * t) - sin ((real m + 1 / 2) * t)" by simp
  then show ?case using Suc.IH by (simp add: algebra_simps)
qed

lemma cos_sum_value:
  assumes d: "1 \<le> d" and k: "0 < k" "k \<le> d"
  shows "(\<Sum>n \<le> d. cos (real n * (real k * pi / real d))) = (1 + cos (real k * pi)) / 2"
proof -
  define t where "t = real k * pi / real d"
  have dt: "real d * t = real k * pi" using d by (simp add: t_def)
  have pos: "0 < t / 2" using d k by (simp add: t_def)
  have "t \<le> pi"
  proof -
    have "real k / real d \<le> 1" using k d by simp
    then have "real k / real d * pi \<le> 1 * pi" by (intro mult_right_mono) simp_all
    then show ?thesis by (simp add: t_def)
  qed
  then have "t / 2 < pi" using pi_gt_zero by linarith
  then have s: "sin (t / 2) \<noteq> 0" using sin_gt_zero[OF pos] by simp
  define S where "S = (\<Sum>n \<le> d. cos (real n * t))"
  define c where "c = cos (real k * pi)"
  have "(real d + 1 / 2) * t = real k * pi + t / 2" using dt by (simp add: algebra_simps)
  then have "sin ((real d + 1 / 2) * t) = c * sin (t / 2)"
    by (simp add: sin_add c_def)
  then have "2 * sin (t / 2) * S = c * sin (t / 2) + sin (t / 2)"
    using cos_telescope[of t d] by (simp add: S_def)
  then have "sin (t / 2) * (2 * S) = sin (t / 2) * (1 + c)"
    by (simp add: algebra_simps)
  then have "2 * S = 1 + c" using s by (metis mult_left_cancel)
  then have "S = (1 + c) / 2" by simp
  then show ?thesis by (simp add: t_def S_def c_def)
qed

lemma scaled_sum_split:
  fixes c :: "nat \<Rightarrow> real"
  assumes d: "1 \<le> d"
  shows "(\<Sum>n \<le> d. c n * (if n = 0 \<or> n = d then 1 / 2 else 1)) = (\<Sum>n \<le> d. c n) - c 0 / 2 - c d / 2"
proof -
  have "c n * (if n = 0 \<or> n = d then 1 / 2 else 1)
        = c n - (if n = 0 then c 0 / 2 else 0) - (if n = d then c d / 2 else 0)" for n
    using d by auto
  then have "(\<Sum>n \<le> d. c n * (if n = 0 \<or> n = d then 1 / 2 else 1))
        = (\<Sum>n \<le> d. c n - (if n = 0 then c 0 / 2 else 0) - (if n = d then c d / 2 else 0))"
    by simp
  also have "\<dots> = (\<Sum>n \<le> d. c n) - (\<Sum>n \<le> d. if n = 0 then c 0 / 2 else 0)
                    - (\<Sum>n \<le> d. if n = d then c d / 2 else 0)"
    by (simp add: sum_subtractf)
  also have "(\<Sum>n \<le> d. if n = 0 then c 0 / 2 else 0) = c 0 / 2"
    by (simp add: sum.delta')
  also have "(\<Sum>n \<le> d. if n = d then c d / 2 else 0) = c d / 2"
    by (simp add: sum.delta')
  finally show ?thesis .
qed

lemma Dval_column_sum:
  assumes d: "1 \<le> d" and k: "k \<le> d"
  shows "(\<Sum>n < d + 1. Dval d k n) = (if k = 0 then 1 else 0)"
proof -
  let ?c = "\<lambda>n. cos (real n * (real k * pi / real d))"
  have lt: "{..<d + 1} = {..d}" by auto
  have pt: "Dval d k n = ?c n * (if n = 0 \<or> n = d then 1 / 2 else 1) / real d" for n
  proof -
    have "real (k * n) * pi / real d = real n * (real k * pi / real d)" by simp
    then show ?thesis unfolding Dval_def by (simp only:)
  qed
  have "(\<Sum>n < d + 1. Dval d k n) = (\<Sum>n \<le> d. ?c n * (if n = 0 \<or> n = d then 1 / 2 else 1)) / real d"
    unfolding lt by (simp only: pt sum_divide_distrib)
  also have "\<dots> = ((\<Sum>n \<le> d. ?c n) - ?c 0 / 2 - ?c d / 2) / real d"
    by (simp only: scaled_sum_split[OF d])
  finally have e: "(\<Sum>n < d + 1. Dval d k n) = ((\<Sum>n \<le> d. ?c n) - ?c 0 / 2 - ?c d / 2) / real d" .
  have cd: "?c d = cos (real k * pi)" using d by simp
  show ?thesis
  proof (cases "k = 0")
    case True
    then show ?thesis using e d by simp
  next
    case False
    then have "(\<Sum>n \<le> d. ?c n) = (1 + cos (real k * pi)) / 2"
      using cos_sum_value[OF d _ k] by simp
    then show ?thesis using e cd False by simp
  qed
qed

lemma wval_sum:
  assumes d: "1 \<le> d"
  shows "(\<Sum>n < d + 1. wval d n) = 1"
proof -
  have "(\<Sum>n < d + 1. wval d n) = (\<Sum>k < d + 1. \<Sum>n < d + 1. Dval d k n * Fval d k)"
    unfolding wval_def by (rule sum.swap)
  also have "\<dots> = (\<Sum>k < d + 1. (\<Sum>n < d + 1. Dval d k n) * Fval d k)"
    by (simp only: sum_distrib_right)
  also have "\<dots> = (\<Sum>k < d + 1. if k = 0 then Fval d 0 else 0)"
  proof (rule sum.cong[OF refl])
    fix k assume "k \<in> {..<d + 1}"
    then have "k \<le> d" by simp
    then show "(\<Sum>n < d + 1. Dval d k n) * Fval d k = (if k = 0 then Fval d 0 else 0)"
      by (simp only: Dval_column_sum[OF d]) simp
  qed
  also have "\<dots> = Fval d 0" by (simp add: sum.delta')
  also have "\<dots> = 1" using d by (simp add: Fval_def)
  finally show ?thesis .
qed

lemma weights_sum:
  assumes d: "1 \<le> d"
  shows "sum_list (map (wval d) [0..<d] @ [wval d d * 2] @ rev (map (wval d) [0..<d])) = 2"
proof -
  have "sum_list (map (wval d) [0..<d]) = (\<Sum>n < d. wval d n)"
    by (simp add: interv_sum_list_conv_sum_set_nat atLeast0LessThan)
  moreover have "(\<Sum>n < d + 1. wval d n) = (\<Sum>n < d. wval d n) + wval d d" by simp
  ultimately have "sum_list (map (wval d) [0..<d]) = 1 - wval d d"
    using wval_sum[OF d] by simp
  then show ?thesis by (simp add: sum_list_rev del: rev_map)
qed

lemma palindrome_nth:
  assumes "i < 2 * length xs + 1"
  shows "(xs @ [a] @ rev xs) ! i = (xs @ [a] @ rev xs) ! (2 * length xs + 1 - 1 - i)"
proof -
  let ?ys = "xs @ [a] @ rev xs"
  have r: "rev ?ys = ?ys" by simp
  have l: "length ?ys = 2 * length xs + 1" by simp
  have "rev ?ys ! i = ?ys ! (length ?ys - Suc i)"
    by (rule rev_nth) (use assms l in simp)
  then show ?thesis using l by (simp only: r) simp
qed


lemma cosine_matrix_at_one: "cosine_matrix (Suc 0) = Inl NonFinite"
proof -
  have "cosine_entry (Suc 0) 0 0 = Inl NonFinite"
    by (simp add: cosine_entry_def fdiv_def)
  then show ?thesis by (simp add: cosine_matrix_def)
qed

lemma weights_at_zero: "clenshaw_curtis_weights (Suc 0) (Suc 0) = Inl NonFinite"
  unfolding clenshaw_curtis_weights_def cosine_matrix_at_one by (rule bindE_Inl)

lemma weight_divisors_nonzero:
  assumes "1 \<le> d"
  shows "0 \<notin> set (weight_divisors (d + 1) (2 * d + 1))"
proof -
  have "real_of_int (1 - 2 * int m * 2 * int m) \<noteq> 0" for m
    by (rule fourier_divisor_nonzero)
  then have "0 \<notin> (\<lambda>m. real_of_int (1 - 2 * int m * 2 * int m)) ` set [1..<d]"
    by (metis (no_types, lifting) imageE)
  moreover have "real_of_int (1 - int (2 * d * (2 * d))) \<noteq> 0" by (rule last_divisor_nonzero)
  moreover have "real d \<noteq> 0" using assms by simp
  ultimately show ?thesis
    unfolding weight_divisors_def by (simp del: of_int_diff of_int_mult)
qed

text \<open>
  Claim C6. For every max degree \<open>d \<ge> 1\<close> (with \<open>L = d + 1\<close> and \<open>U = 2 * d + 1\<close>) the
  objective vector is produced, has length \<open>U\<close>, and is symmetric:
  \<open>objective[i] = objective[U - 1 - i]\<close> for every \<open>i < U\<close>.
\<close>

theorem objective_symmetric:
  assumes "1 \<le> m_d st" "m_L st = m_d st + 1" "m_U st = 2 * m_d st + 1"
  shows "\<exists>st'. get_clenshaw_curtis_integrals st = Inr st'
           \<and> length (m_objectives_vector st') = m_U st
           \<and> (\<forall>i < m_U st. m_objectives_vector st' ! i = m_objectives_vector st' ! (m_U st - 1 - i))"
proof -
  define d where "d = m_d st"
  define xs where "xs = map (\<lambda>x. - x) (map (wval d) [0..<d])"
  define obj where "obj = xs @ [- (wval d d * 2)] @ rev xs"
  have lx: "length xs = d" by (simp add: xs_def)
  have LU: "m_L st = d + 1" "m_U st = 2 * d + 1" "1 \<le> d" using assms by (simp_all add: d_def)
  have neg: "map (\<lambda>x. - x) (map (wval d) [0..<d] @ [wval d d * 2] @ rev (map (wval d) [0..<d])) = obj"
    by (simp add: obj_def xs_def rev_map)
  have "clenshaw_curtis_weights (m_L st) (m_U st)
        = Inr (map (wval d) [0..<d] @ [wval d d * 2] @ rev (map (wval d) [0..<d]))"
    unfolding LU by (rule weights_closed[OF LU(3)])
  then have g: "get_clenshaw_curtis_integrals st = Inr (st\<lparr>m_objectives_vector := obj\<rparr>)"
    unfolding get_clenshaw_curtis_integrals_def by (simp only: bindE_Inr neg)
  have l: "length obj = m_U st" unfolding LU obj_def using lx by simp
  have sym: "obj ! i = obj ! (m_U st - 1 - i)" if "i < m_U st" for i
  proof -
    have i: "i < 2 * length xs + 1" using that LU lx by simp
    have "m_U st - 1 - i = 2 * length xs + 1 - 1 - i" using LU lx by simp
    then show ?thesis unfolding obj_def using palindrome_nth[OF i] by (simp only:)
  qed
  have "m_objectives_vector (st\<lparr>m_objectives_vector := obj\<rparr>) = obj" by simp
  then show ?thesis using g l sym by (metis (no_types, lifting))
qed

text \<open>Claim C6 at \<open>d = 1\<close>.\<close>

theorem objective_symmetric_witness:
  "\<exists>st'. get_clenshaw_curtis_integrals (quadrature_state 1) = Inr st'
           \<and> length (m_objectives_vector st') = 3
           \<and> m_objectives_vector st' ! 0 = m_objectives_vector st' ! 2"
proof -
  have h: "1 \<le> m_d (quadrature_state 1)"
      "m_L (quadrature_state 1) = m_d (quadrature_state 1) + 1"
      "m_U (quadrature_state 1) = 2 * m_d (quadrature_state 1) + 1"
    by (simp_all add: quadrature_state_def)
  obtain st' where s: "get_clenshaw_curtis_integrals (quadrature_state 1) = Inr st'"
      "length (m_objectives_vector st') = m_U (quadrature_state 1)"
      "\<forall>i < m_U (quadrature_state 1).
          m_objectives_vector st' ! i = m_objectives_vector st' ! (m_U (quadrature_state 1) - 1 - i)"
    using objective_symmetric[OF h] by blast
  have u: "m_U (quadrature_state 1) = 3" by (simp add: quadrature_state_def)
  have "m_objectives_vector st' ! 0 = m_objectives_vector st' ! 2"
    using s(3)[rule_format, of 0] unfolding u by (simp add: numeral_2_eq_2)
  then show ?thesis using s(1,2) u by auto
qed

text \<open>
  In exact arithmetic, for every max degree \<open>d \<ge> 1\<close> the Clenshaw-Curtis weights sum to 2
  and the entries of the objective vector, their negation, sum to \<open>- 2\<close>. The source
  computes the weights in doubles, with rounded cosines, products and sums; the exact
  value of the sum of the computed doubles is outside this model.
\<close>

lemma weights_total_mass_exact:
  assumes "1 \<le> m_d st" "m_L st = m_d st + 1" "m_U st = 2 * m_d st + 1"
  shows "\<exists>w st'. clenshaw_curtis_weights (m_L st) (m_U st) = Inr w \<and> sum_list w = 2
           \<and> get_clenshaw_curtis_integrals st = Inr st'
           \<and> sum_list (m_objectives_vector st') = - 2"
proof -
  define d where "d = m_d st"
  define w where "w = map (wval d) [0..<d] @ [wval d d * 2] @ rev (map (wval d) [0..<d])"
  have c: "clenshaw_curtis_weights (m_L st) (m_U st) = Inr w"
    using weights_closed[of d] assms by (simp add: d_def w_def)
  have s: "sum_list w = 2" using weights_sum[of d] assms by (simp add: d_def w_def)
  have g: "get_clenshaw_curtis_integrals st = Inr (st\<lparr>m_objectives_vector := map (\<lambda>x. - x) w\<rparr>)"
    using c by (simp add: get_clenshaw_curtis_integrals_def)
  have "sum_list (map (\<lambda>x. - x) w) = - sum_list w"
    by (induction w) simp_all
  then show ?thesis using c s g by simp
qed

text \<open>At \<open>d = 1\<close> the weights are those of Simpson's rule.\<close>

lemma weights_degree_one: "clenshaw_curtis_weights 2 3 = Inr [1 / 3, 4 / 3, 1 / 3]"
proof -
  have "clenshaw_curtis_weights (1 + 1) (2 * 1 + 1)
        = Inr (map (wval 1) [0..<1] @ [wval 1 1 * 2] @ rev (map (wval 1) [0..<1]))"
    by (rule weights_closed) simp
  moreover have "wval 1 0 = 1 / 3" by (simp add: wval_def Dval_def Fval_def)
  moreover have "wval 1 1 = 2 / 3" by (simp add: wval_def Dval_def Fval_def)
  ultimately show ?thesis by (simp add: numeral_2_eq_2 numeral_3_eq_3)
qed

text \<open>The exact sums at \<open>d = 1\<close>.\<close>

lemma weights_total_mass_exact_degree_one:
  "\<exists>w st'. clenshaw_curtis_weights 2 3 = Inr w \<and> sum_list w = 2
           \<and> get_clenshaw_curtis_integrals (quadrature_state 1) = Inr st'
           \<and> sum_list (m_objectives_vector st') = - 2"
  using weights_total_mass_exact[of "quadrature_state 1"]
  by (simp add: quadrature_state_def numeral_2_eq_2 numeral_3_eq_3)

text \<open>
  Claim C10. The weight computation yields a result exactly when \<open>d \<ge> 1\<close>; all its divisors
  are non-zero exactly when \<open>d \<ge> 1\<close>; at \<open>d = 0\<close> (so \<open>L = 1\<close>) it divides by \<open>L - 1 = 0\<close>.
\<close>

theorem weights_defined_iff:
  "((\<exists>w. clenshaw_curtis_weights (d + 1) (2 * d + 1) = Inr w) \<longleftrightarrow> 1 \<le> d)
   \<and> (0 \<notin> set (weight_divisors (d + 1) (2 * d + 1)) \<longleftrightarrow> 1 \<le> d)
   \<and> (d = 0 \<longrightarrow> clenshaw_curtis_weights (d + 1) (2 * d + 1) = Inl NonFinite)"
proof (cases "d = 0")
  case True
  then show ?thesis by (simp add: weights_at_zero weight_divisors_def)
next
  case False
  then have d: "1 \<le> d" by simp
  show ?thesis
    using weights_closed[OF d] weight_divisors_nonzero[OF d] d by simp
qed

text \<open>Claim C10 at \<open>d = 0\<close> and at \<open>d = 1\<close>.\<close>

theorem weights_defined_iff_witness:
  "clenshaw_curtis_weights 1 1 = Inl NonFinite
   \<and> 0 \<in> set (weight_divisors 1 1)
   \<and> (\<exists>w. clenshaw_curtis_weights 2 3 = Inr w)
   \<and> 0 \<notin> set (weight_divisors 2 3)"
  using weights_defined_iff[of 0] weights_defined_iff[of 1]
  by (simp add: numeral_2_eq_2 numeral_3_eq_3)

text \<open>Under wrap-around modulo \<open>2\<^sup>3\<^sup>2\<close> both integer divisors are odd, hence non-zero.\<close>

lemma loop_divisor_32_nonzero: "loop_divisor_32 m \<noteq> 0"
proof
  assume "loop_divisor_32 m = 0"
  then have "2 * m * 2 * m = 1" by (simp add: loop_divisor_32_def)
  moreover have "even (2 * m * 2 * m)" by simp
  ultimately show False by (metis odd_one)
qed

lemma last_divisor_32_nonzero: "last_divisor_32 (2 * d + 1) \<noteq> 0"
proof
  assume "last_divisor_32 (2 * d + 1) = 0"
  then have "2 * d * (2 * d) = 1" by (simp add: last_divisor_32_def)
  moreover have "even (2 * d * (2 * d))" by simp
  ultimately show False by (metis odd_one)
qed

subsection \<open>The constructor\<close>

text \<open>
  For interpolant input and \<open>d \<ge> 1\<close> the constructor yields a state with \<open>L = d + 1\<close>,
  \<open>U = 2 * d + 1\<close>, an objective vector of length \<open>U\<close> and an empty registry; it stops at
  an assertion unless there is exactly one variable and one interval.
\<close>

lemma new_EnvelopeProblemSOS_interpolant:
  assumes "1 \<le> d"
  shows "\<exists>st. new_EnvelopeProblemSOS True weighted pts 1 d [box] = Inr st
           \<and> m_d st = d \<and> m_L st = d + 1 \<and> m_U st = 2 * d + 1
           \<and> m_input_in_interpolant_basis st \<and> m_use_weighted_polynomials st = weighted
           \<and> m_basis_polynomials st = [] \<and> m_polynomials_bounds st = []
           \<and> length (m_objectives_vector st) = m_U st"
proof -
  let ?w = "map (wval d) [0..<d] @ [wval d d * 2] @ rev (map (wval d) [0..<d])"
  have "clenshaw_curtis_weights (d + 1) (2 * d + 1) = Inr ?w"
    by (rule weights_closed[OF assms])
  then show ?thesis
    by (simp add: new_EnvelopeProblemSOS_def get_clenshaw_curtis_integrals_def)
qed

lemma new_EnvelopeProblemSOS_rejects:
  "num_variables \<noteq> length hyperRectangle \<or> num_variables \<noteq> 1 \<Longrightarrow>
     new_EnvelopeProblemSOS interp weighted pts num_variables d hyperRectangle = Inl AssertionFailed"
  by (auto simp: new_EnvelopeProblemSOS_def)

section \<open>Properties of calculate_basis_polynomials\<close>

lemma peval_Nil: "peval [] x = 0"
  by (simp add: peval_def)

lemma peval_Cons: "peval (a # p) x = a + x * peval p x"
proof -
  have "peval (a # p) x = (\<Sum>k < Suc (length p). (a # p) ! k * x ^ k)"
    by (simp add: peval_def)
  also have "\<dots> = (a # p) ! 0 * x ^ 0 + (\<Sum>k < length p. (a # p) ! Suc k * x ^ Suc k)"
    by (rule sum.lessThan_Suc_shift)
  also have "\<dots> = a + x * (\<Sum>k < length p. p ! k * x ^ k)"
    by (simp add: sum_distrib_left algebra_simps)
  finally show ?thesis by (simp add: peval_def)
qed

lemma peval_snoc_zero: "peval (p @ [0]) x = peval p x"
  by (induction p) (simp_all add: peval_Cons peval_Nil)

lemma peval_scale: "peval (map (\<lambda>y. c * y) p) x = c * peval p x"
  by (induction p) (simp_all add: peval_Cons peval_Nil algebra_simps)

lemma peval_divide: "peval (map (\<lambda>y. y / c) p) x = peval p x / c"
  by (induction p) (simp_all add: peval_Cons peval_Nil add_divide_distrib)

lemma peval_add: "length p = length q \<Longrightarrow> peval (map2 (+) p q) x = peval p x + peval q x"
  by (induction p q rule: list_induct2) (simp_all add: peval_Cons peval_Nil algebra_simps)

lemma basis_factor_length: "length p = U \<Longrightarrow> length (basis_factor U c p) = U"
  by (simp add: basis_factor_def)

lemma basis_factor_nth:
  assumes "length p = U" "k < U"
  shows "basis_factor U c p ! k = (if k = 0 then 0 else p ! (k - 1)) - c * p ! k"
  using assms by (cases k) (simp_all add: basis_factor_def)

lemma basis_factor_deg:
  assumes "length p = U" "deg_le t p"
  shows "deg_le (Suc t) (basis_factor U c p)"
  unfolding deg_le_def
proof (intro allI impI)
  fix k assume k: "Suc t < k \<and> k < length (basis_factor U c p)"
  then have kU: "k < U" using assms(1) by (simp add: basis_factor_length)
  have "t < k - 1 \<and> k - 1 < length p" "t < k \<and> k < length p"
    using assms(1) k kU by auto
  then have "p ! (k - 1) = 0" "p ! k = 0"
    using assms(2) unfolding deg_le_def by blast+
  then show "basis_factor U c p ! k = 0"
    using basis_factor_nth[OF assms(1) kU] k by simp
qed

lemma basis_factor_peval:
  assumes len: "length p = U" and deg: "deg_le t p" and t: "Suc t < U"
  shows "peval (basis_factor U c p) x = (x - c) * peval p x"
proof -
  have ne: "p \<noteq> []" using len t by auto
  have "last p = p ! (U - 1)" using ne len by (simp add: last_conv_nth)
  also have "\<dots> = 0" using deg len t by (simp add: deg_le_def)
  finally have l0: "last p = 0" .
  have p: "p = butlast p @ [0]" using ne l0 by (metis append_butlast_last_id)
  have "take U (0 # p) = 0 # butlast p"
    using len ne by (cases U) (simp_all add: butlast_conv_take)
  then have "basis_factor U c p = map2 (+) (0 # butlast p) (map (\<lambda>y. - c * y) p)"
    by (simp add: basis_factor_def)
  moreover have "length (0 # butlast p) = length (map (\<lambda>y. - c * y) p)" using ne by simp
  ultimately have "peval (basis_factor U c p) x
        = peval (0 # butlast p) x + peval (map (\<lambda>y. - c * y) p) x"
    by (simp only: peval_add)
  also have "peval (0 # butlast p) x = x * peval (butlast p) x" by (simp add: peval_Cons)
  also have "peval (butlast p) x = peval p x" using peval_snoc_zero[of "butlast p" x] p by simp
  also have "peval (map (\<lambda>y. - c * y) p) x = - c * peval p x" by (rule peval_scale)
  finally show ?thesis by (simp add: algebra_simps)
qed

lemma basis_inner_loop_result:
  assumes "length p = U" "deg_le t p" "t + length (filter (\<lambda>j. j \<noteq> i) js) < U"
  shows "\<exists>p'. basis_inner_loop pts U i js (p, denom) =
            (p', denom * prod_list (map (\<lambda>j. pts ! i - pts ! j) (filter (\<lambda>j. j \<noteq> i) js)))
          \<and> length p' = U
          \<and> (\<forall>x. peval p' x = prod_list (map (\<lambda>j. x - pts ! j) (filter (\<lambda>j. j \<noteq> i) js)) * peval p x)"
  using assms
proof (induction js arbitrary: p denom t)
  case Nil
  then show ?case by simp
next
  case (Cons j js)
  show ?case
  proof (cases "i = j")
    case True
    then show ?thesis using Cons.IH[OF Cons.prems(1,2), of denom] Cons.prems(3) by simp
  next
    case False
    let ?p1 = "basis_factor U (pts ! j) p"
    have t: "Suc t < U" using Cons.prems(3) False by simp
    have l1: "length ?p1 = U" by (rule basis_factor_length[OF Cons.prems(1)])
    have d1: "deg_le (Suc t) ?p1" by (rule basis_factor_deg[OF Cons.prems(1,2)])
    have e1: "peval ?p1 x = (x - pts ! j) * peval p x" for x
      by (rule basis_factor_peval[OF Cons.prems(1,2) t])
    have b1: "Suc t + length (filter (\<lambda>j. j \<noteq> i) js) < U" using Cons.prems(3) False by simp
    obtain p' where p': "basis_inner_loop pts U i js (?p1, denom * (pts ! i - pts ! j)) =
            (p', denom * (pts ! i - pts ! j) * prod_list (map (\<lambda>j. pts ! i - pts ! j) (filter (\<lambda>j. j \<noteq> i) js)))"
        "length p' = U"
        "\<forall>x. peval p' x = prod_list (map (\<lambda>j. x - pts ! j) (filter (\<lambda>j. j \<noteq> i) js)) * peval ?p1 x"
      using Cons.IH[OF l1 d1 b1, of "denom * (pts ! i - pts ! j)"] by blast
    have "basis_inner_loop pts U i (j # js) (p, denom) =
            (p', denom * prod_list (map (\<lambda>j. pts ! i - pts ! j) (filter (\<lambda>j. j \<noteq> i) (j # js))))"
      using False p'(1) by (simp add: mult.assoc)
    moreover have "\<forall>x. peval p' x = prod_list (map (\<lambda>j. x - pts ! j) (filter (\<lambda>j. j \<noteq> i) (j # js))) * peval p x"
      using False p'(3) e1 by (simp add: algebra_simps)
    ultimately show ?thesis using p'(2) by blast
  qed
qed

lemma filter_neq_upt:
  assumes "i < U"
  shows "filter (\<lambda>j. j \<noteq> i) [0..<U] = [0..<i] @ [Suc i..<U]"
proof -
  have "[0..<i + (U - i)] = [0..<i] @ [i..<i + (U - i)]"
    by (rule upt_add_eq_append) simp
  then have "[0..<U] = [0..<i] @ [i..<U]"
    using assms by simp
  moreover have "[i..<U] = i # [Suc i..<U]"
    using assms by (rule upt_conv_Cons)
  ultimately have "[0..<U] = [0..<i] @ [i] @ [Suc i..<U]" by simp
  moreover have "filter (\<lambda>j. j \<noteq> i) [0..<i] = [0..<i]" by (rule filter_True) simp
  moreover have "filter (\<lambda>j. j \<noteq> i) [Suc i..<U] = [Suc i..<U]" by (rule filter_True) simp
  ultimately show ?thesis by simp
qed


lemma sequenceE_map_projr:
  assumes "\<And>x. x \<in> set xs \<Longrightarrow> \<exists>y. f x = Inr y"
  shows "sequenceE (map f xs) = Inr (map (\<lambda>x. projr (f x)) xs)"
proof (rule sequenceE_map_Inr)
  fix x assume "x \<in> set xs"
  then obtain y where "f x = Inr y" using assms by blast
  then show "f x = Inr (projr (f x))" by simp
qed

lemma peval_unit: "0 < U \<Longrightarrow> peval ((Zero_vec U)[0 := 1]) x = 1"
proof -
  assume "0 < U"
  then obtain n where "U = Suc n" by (cases U) auto
  moreover have "peval (replicate n 0) x = 0" by (induction n) (simp_all add: peval_Nil peval_Cons)
  ultimately show ?thesis by (simp add: Zero_vec_def peval_Cons)
qed

lemma deg_unit: "deg_le 0 ((Zero_vec U)[0 := 1])"
  by (simp add: deg_le_def Zero_vec_def)

lemma basis_element_interpolates:
  assumes i: "i < U" and len: "U \<le> length pts" and dist: "distinct (take U pts)"
  shows "\<exists>q. basis_element pts U i = Inr q \<and> length q = U
           \<and> (\<forall>m < U. peval q (pts ! m) = (if m = i then 1 else 0))"
proof -
  let ?js = "filter (\<lambda>j. j \<noteq> i) [0..<U]"
  let ?den = "prod_list (map (\<lambda>j. pts ! i - pts ! j) ?js)"
  have js: "?js = [0..<i] @ [Suc i..<U]" by (rule filter_neq_upt[OF i])
  have ljs: "0 + length ?js < U" using i unfolding js by simp
  have l0: "length ((Zero_vec U)[0 := 1]) = U" by (simp add: length_Zero_vec)
  obtain p' where p': "basis_inner_loop pts U i [0..<U] ((Zero_vec U)[0 := 1], 1) = (p', 1 * ?den)"
      "length p' = U"
      "\<forall>x. peval p' x = prod_list (map (\<lambda>j. x - pts ! j) ?js) * peval ((Zero_vec U)[0 := 1]) x"
    using basis_inner_loop_result[OF l0 deg_unit ljs, of pts 1] by blast
  have ev: "peval p' x = prod_list (map (\<lambda>j. x - pts ! j) ?js)" for x
    using p'(3) i by (simp add: peval_unit)
  have neq: "pts ! i \<noteq> pts ! j" if "j \<in> set ?js" for j
  proof -
    have j: "j < U" "j \<noteq> i" using that by auto
    have "(take U pts ! i = take U pts ! j) = (i = j)"
      by (rule nth_eq_iff_index_eq[OF dist]) (use i j len in simp_all)
    then show ?thesis using i j by simp
  qed
  have den: "?den \<noteq> 0"
  proof
    assume "?den = 0"
    then have "0 \<in> set (map (\<lambda>j. pts ! i - pts ! j) ?js)" by (simp only: prod_list_zero_iff)
    then obtain j where "j \<in> set ?js" "pts ! i - pts ! j = 0" by auto
    then show False using neq by auto
  qed
  let ?q = "map (\<lambda>y. y / ?den) p'"
  have "sequenceE (map (\<lambda>y. fdiv y ?den) p') = Inr ?q"
    by (rule sequenceE_map_Inr) (simp add: fdiv_Inr den)
  then have be: "basis_element pts U i = Inr ?q"
    using p'(1) by (simp add: basis_element_def)
  have val: "peval ?q (pts ! m) = (if m = i then 1 else 0)" if m: "m < U" for m
  proof (cases "m = i")
    case True
    then show ?thesis using den by (simp add: peval_divide ev)
  next
    case False
    then have "m \<in> set ?js" using m by simp
    then have "0 \<in> set (map (\<lambda>j. pts ! m - pts ! j) ?js)" by force
    then have "prod_list (map (\<lambda>j. pts ! m - pts ! j) ?js) = 0" by (simp only: prod_list_zero_iff)
    then show ?thesis using False by (simp add: peval_divide ev)
  qed
  show ?thesis using be p'(2) val by simp
qed

lemma peval_unique:
  assumes lp: "length p = U" and lq: "length q = U"
    and len: "U \<le> length pts" and dist: "distinct (take U pts)"
    and eq: "\<forall>m < U. peval p (pts ! m) = peval q (pts ! m)"
  shows "p = q"
proof (cases "U = 0")
  case True
  then show ?thesis using lp lq by simp
next
  case False
  define c where "c k = (if k < U then p ! k - q ! k else 0)" for k
  have ev: "(\<Sum>k \<le> U - 1. c k * z ^ k) = peval p z - peval q z" for z
  proof -
    have "{..U - 1} = {..<U}" using False by auto
    then show ?thesis
      using lp lq by (simp add: peval_def c_def sum_subtractf algebra_simps)
  qed
  have roots: "set (take U pts) \<subseteq> {z. (\<Sum>k \<le> U - 1. c k * z ^ k) = 0}"
  proof
    fix z assume "z \<in> set (take U pts)"
    then obtain m where "m < U" "z = pts ! m"
      using len by (auto simp: in_set_conv_nth)
    then show "z \<in> {z. (\<Sum>k \<le> U - 1. c k * z ^ k) = 0}" using eq ev by simp
  qed
  have card: "card (set (take U pts)) = U"
    using dist len by (simp add: distinct_card)
  have zero: "c k = 0" if "k \<le> U - 1" for k
  proof (rule ccontr)
    assume "c k \<noteq> 0"
    then have f: "finite {z. (\<Sum>k \<le> U - 1. c k * z ^ k) = 0}"
      and b: "card {z. (\<Sum>k \<le> U - 1. c k * z ^ k) = 0} \<le> U - 1"
      using polyfun_rootbound[of c k "U - 1"] that by auto
    have "U \<le> card {z. (\<Sum>k \<le> U - 1. c k * z ^ k) = 0}"
      using card_mono[OF f roots] card by simp
    then show False using b False by simp
  qed
  show ?thesis
  proof (rule nth_equalityI)
    show "length p = length q" using lp lq by simp
    fix k assume "k < length p"
    then have "k \<le> U - 1" "k < U" using lp by auto
    then show "p ! k = q ! k" using zero[of k] by (simp add: c_def)
  qed
qed

text \<open>
  Claim C8. With \<open>U = 2 * d + 1\<close> pairwise distinct nodes, the basis is built, and for every
  \<open>i < U\<close> its \<open>i\<close>-th coefficient vector is the one and only coefficient vector of length
  \<open>U\<close> (degree at most \<open>U - 1\<close>) whose polynomial is 1 at node \<open>i\<close> and 0 at every other
  node.
\<close>

theorem basis_polynomials_lagrange:
  assumes U: "m_U st = 2 * m_d st + 1"
    and len: "m_U st \<le> length chebyshev_points"
    and dist: "distinct (take (m_U st) chebyshev_points)"
  shows "\<exists>st'. calculate_basis_polynomials chebyshev_points st = Inr st'
           \<and> length (m_basis_polynomials st') = m_U st
           \<and> (\<forall>i < m_U st. \<forall>q.
                 (length q = m_U st
                  \<and> (\<forall>j < m_U st. peval q (chebyshev_points ! j) = (if j = i then 1 else 0)))
                 \<longleftrightarrow> q = m_basis_polynomials st' ! i)"
proof -
  define n where "n = m_U st"
  define f where "f = basis_element chebyshev_points n"
  define bs where "bs = map (\<lambda>i. projr (f i)) [0..<n]"
  define st' where "st' = st\<lparr>m_basis_polynomials := bs\<rparr>"
  have ex: "\<exists>q. f i = Inr q \<and> length q = n
           \<and> (\<forall>m < n. peval q (chebyshev_points ! m) = (if m = i then 1 else 0))" if "i < n" for i
    unfolding f_def using that len dist unfolding n_def by (rule basis_element_interpolates)
  have "sequenceE (map f [0..<n]) = Inr bs"
    unfolding bs_def
  proof (rule sequenceE_map_projr)
    fix i assume "i \<in> set [0..<n]"
    then have "i < n" by simp
    from ex[OF this] show "\<exists>y. f i = Inr y" by blast
  qed
  then have c: "calculate_basis_polynomials chebyshev_points st = Inr st'"
    using U len by (simp add: calculate_basis_polynomials_def st'_def f_def n_def)
  have sel: "m_basis_polynomials st' = bs" by (simp add: st'_def)
  have lbs: "length bs = n" by (simp add: bs_def)
  have char: "(length q = n \<and> (\<forall>j < n. peval q (chebyshev_points ! j) = (if j = i then 1 else 0)))
               \<longleftrightarrow> q = bs ! i" if i: "i < n" for i q
  proof -
    obtain b where b: "f i = Inr b" "length b = n"
        "\<forall>m < n. peval b (chebyshev_points ! m) = (if m = i then 1 else 0)"
      using ex[OF i] by blast
    have bi: "bs ! i = b" using i b(1) by (simp add: bs_def)
    show ?thesis
    proof
      assume q: "length q = n \<and> (\<forall>j < n. peval q (chebyshev_points ! j) = (if j = i then 1 else 0))"
      then have lq: "length q = n" by simp
      have "\<forall>m < n. peval q (chebyshev_points ! m) = peval b (chebyshev_points ! m)"
        using b(3) q by simp
      then have "q = b"
        using peval_unique[OF lq b(2), of chebyshev_points] len dist unfolding n_def by blast
      then show "q = bs ! i" using bi by simp
    next
      assume "q = bs ! i"
      then have "q = b" using bi by simp
      then show "length q = n \<and> (\<forall>j < n. peval q (chebyshev_points ! j) = (if j = i then 1 else 0))"
        using b(2,3) by simp
    qed
  qed
  have "calculate_basis_polynomials chebyshev_points st = Inr st'
           \<and> length (m_basis_polynomials st') = n
           \<and> (\<forall>i < n. \<forall>q.
                 (length q = n
                  \<and> (\<forall>j < n. peval q (chebyshev_points ! j) = (if j = i then 1 else 0)))
                 \<longleftrightarrow> q = m_basis_polynomials st' ! i)"
    unfolding sel using c lbs char by blast
  then show ?thesis unfolding n_def by (rule exI)
qed

text \<open>The basis computed for the nodes \<open>1, 0, - 1\<close>.\<close>

lemma basis_degree_one:
  "calculate_basis_polynomials [1, 0, - 1] (coefficient_state\<lparr>m_basis_polynomials := []\<rparr>)
     = Inr coefficient_state"
  by (simp add: calculate_basis_polynomials_def coefficient_state_def basis_element_def
      basis_factor_def Zero_vec_def fdiv_def upt_rec numeral_3_eq_3)

text \<open>Claim C8 at \<open>d = 1\<close> with the nodes \<open>1, 0, - 1\<close>.\<close>

theorem basis_polynomials_lagrange_witness:
  "\<exists>st'. calculate_basis_polynomials [1, 0, - 1] (coefficient_state\<lparr>m_basis_polynomials := []\<rparr>) = Inr st'
      \<and> length (m_basis_polynomials st') = 3
      \<and> (\<forall>i < 3. \<forall>q.
            (length q = 3 \<and> (\<forall>j < 3. peval q ([1, 0, - 1] ! j) = (if j = i then 1 else 0)))
            \<longleftrightarrow> q = m_basis_polynomials st' ! i)"
  using basis_polynomials_lagrange[of "coefficient_state\<lparr>m_basis_polynomials := []\<rparr>" "[1, 0, - 1]"]
  by (simp add: coefficient_state_def)

text \<open>
  The Chebyshev extrema are pairwise distinct, so they are nodes as the basis construction
  needs them; for \<open>d = 1\<close> they are \<open>1, 0, - 1\<close>.
\<close>

lemma chebyshev_extrema_distinct:
  assumes "1 \<le> d"
  shows "distinct (chebyshev_extrema (2 * d + 1))"
proof -
  let ?f = "\<lambda>i. cos (real i * pi / real (2 * d))"
  have "inj_on ?f (set [0..<2 * d + 1])"
  proof (rule inj_onI)
    fix i j assume i: "i \<in> set [0..<2 * d + 1]" and j: "j \<in> set [0..<2 * d + 1]"
      and e: "?f i = ?f j"
    have r: "0 \<le> real k * pi / real (2 * d) \<and> real k * pi / real (2 * d) \<le> pi"
      if "k \<le> 2 * d" for k
    proof -
      have "real k / real (2 * d) \<le> 1" using that assms by simp
      then have "real k / real (2 * d) * pi \<le> 1 * pi" by (intro mult_right_mono) simp_all
      then show ?thesis by simp
    qed
    have ij: "i \<le> 2 * d" "j \<le> 2 * d" using i j by auto
    have "real i * pi / real (2 * d) = real j * pi / real (2 * d)"
      by (rule cos_inj_pi) (use r[OF ij(1)] r[OF ij(2)] e in blast)+
    then show "i = j" using assms by simp
  qed
  then have "distinct (map ?f [0..<2 * d + 1])" by (simp add: distinct_map)
  then show ?thesis by (simp add: chebyshev_extrema_def)
qed

lemma chebyshev_extrema_length: "length (chebyshev_extrema U) = U"
  by (simp add: chebyshev_extrema_def)

lemma chebyshev_extrema_degree_one: "chebyshev_extrema 3 = [1, 0, - 1]"
  by (simp add: chebyshev_extrema_def upt_rec numeral_3_eq_3 cos_pi_half)

section \<open>Properties of add_polynomial and print_solution\<close>

lemma get_transformation_matrix_shape:
  assumes "get_transformation_matrix st = Inr Q"
  shows "has_shape Q (length (m_basis_polynomials st)) (length (m_basis_polynomials st))"
proof -
  have "Q = map (\<lambda>i. map (\<lambda>j. m_basis_polynomials st ! j ! i) [0..<length (m_basis_polynomials st)])
              [0..<length (m_basis_polynomials st)]"
    using assms by (simp add: get_transformation_matrix_def Let_def split: if_splits)
  then show ?thesis by (auto simp: has_shape_def)
qed

lemma cols_shape: "has_shape M r c \<Longrightarrow> 0 < r \<Longrightarrow> cols M = c"
  by (cases M) (simp_all add: has_shape_def cols_def)

lemma mat_mul_shape:
  assumes "has_shape M1 k k" "has_shape M2 k k"
  shows "\<exists>P. mat_mul M1 M2 = Inr P \<and> has_shape P k k"
proof (cases "k = 0")
  case True
  then show ?thesis using assms by (simp add: mat_mul_def has_shape_def)
next
  case False
  then have c: "cols M2 = k" using cols_shape[OF assms(2)] by simp
  show ?thesis using assms by (auto simp: mat_mul_def has_shape_def c)
qed

lemma Identity_mat_shape: "has_shape (Identity_mat r c) r c"
  by (auto simp: Identity_mat_def has_shape_def)

lemma mat_sub_shape:
  assumes "has_shape M1 r c" "has_shape M2 r c"
  shows "\<exists>R. mat_sub M1 M2 = Inr R"
proof -
  have "length r1 = length r2" if "(r1, r2) \<in> set (zip M1 M2)" for r1 r2
  proof -
    have "r1 \<in> set M1" "r2 \<in> set M2" using that by (auto dest: set_zip_leftD set_zip_rightD)
    then show ?thesis using assms by (simp add: has_shape_def)
  qed
  then show ?thesis using assms by (auto simp: mat_sub_def has_shape_def)
qed

lemma inversion_residual_defined:
  assumes "get_transformation_matrix st = Inr Q"
  shows "\<exists>R. bindE (mat_mul Q (map (\<lambda>i. map (\<lambda>j. inverse_entry Q i j) [0..<length Q]) [0..<length Q]))
              (\<lambda>P. mat_sub P (Identity_mat (length Q) (length Q))) = Inr R"
proof -
  define k where "k = length (m_basis_polynomials st)"
  have sQ: "has_shape Q k k" unfolding k_def by (rule get_transformation_matrix_shape[OF assms])
  then have lQ: "length Q = k" by (simp add: has_shape_def)
  have sI: "has_shape (map (\<lambda>i. map (\<lambda>j. inverse_entry Q i j) [0..<k]) [0..<k]) k k"
    by (auto simp: has_shape_def)
  obtain P where P: "mat_mul Q (map (\<lambda>i. map (\<lambda>j. inverse_entry Q i j) [0..<k]) [0..<k]) = Inr P"
      "has_shape P k k"
    using mat_mul_shape[OF sQ sI] by blast
  obtain R where "mat_sub P (Identity_mat k k) = Inr R"
    using mat_sub_shape[OF P(2) Identity_mat_shape] by blast
  then show ?thesis using P(1) unfolding lQ by simp
qed

lemma add_polynomial_outcome:
  assumes Q: "get_transformation_matrix st = Inr Q"
  shows "(m_input_in_interpolant_basis st \<longrightarrow>
            add_polynomial inverse_entry solve_entry st polynomial =
              ([Log LevelInfo ''Transformation matrix has norm {}'' [norm_mat Q]],
               Inr (st\<lparr>m_polynomials_bounds := m_polynomials_bounds st @ [polynomial]\<rparr>)))
       \<and> (\<not> m_input_in_interpolant_basis st \<and> length polynomial = length Q \<longrightarrow>
            (\<exists>R. bindE (mat_mul Q (map (\<lambda>i. map (\<lambda>j. inverse_entry Q i j) [0..<length Q]) [0..<length Q]))
                    (\<lambda>P. mat_sub P (Identity_mat (length Q) (length Q))) = Inr R
               \<and> add_polynomial inverse_entry solve_entry st polynomial =
                   ([Log LevelInfo ''Transformation matrix has norm {}'' [norm_mat Q],
                     Log LevelInfo ''Invert transformation matrix to add polynomial ...'' [],
                     Log LevelInfo ''Inversion error is {}'' [norm_mat R]],
                    Inr (st\<lparr>m_polynomials_bounds := m_polynomials_bounds st
                               @ [map (solve_entry Q polynomial) [0..<length Q]]\<rparr>))))
       \<and> snd (add_polynomial other_inverse_entry solve_entry st polynomial)
           = snd (add_polynomial inverse_entry solve_entry st polynomial)"
proof (intro conjI impI)
  show "add_polynomial inverse_entry solve_entry st polynomial =
              ([Log LevelInfo ''Transformation matrix has norm {}'' [norm_mat Q]],
               Inr (st\<lparr>m_polynomials_bounds := m_polynomials_bounds st @ [polynomial]\<rparr>))"
    if "m_input_in_interpolant_basis st"
    using that Q by (simp add: add_polynomial_def)
next
  assume h: "\<not> m_input_in_interpolant_basis st \<and> length polynomial = length Q"
  obtain R where R: "bindE (mat_mul Q (map (\<lambda>i. map (\<lambda>j. inverse_entry Q i j) [0..<length Q]) [0..<length Q]))
                    (\<lambda>P. mat_sub P (Identity_mat (length Q) (length Q))) = Inr R"
    using inversion_residual_defined[OF Q] by blast
  have "add_polynomial inverse_entry solve_entry st polynomial =
                   ([Log LevelInfo ''Transformation matrix has norm {}'' [norm_mat Q],
                     Log LevelInfo ''Invert transformation matrix to add polynomial ...'' [],
                     Log LevelInfo ''Inversion error is {}'' [norm_mat R]],
                    Inr (st\<lparr>m_polynomials_bounds := m_polynomials_bounds st
                               @ [map (solve_entry Q polynomial) [0..<length Q]]\<rparr>))"
    using h Q R by (simp add: add_polynomial_def Let_def)
  then show "\<exists>R. bindE (mat_mul Q (map (\<lambda>i. map (\<lambda>j. inverse_entry Q i j) [0..<length Q]) [0..<length Q]))
                    (\<lambda>P. mat_sub P (Identity_mat (length Q) (length Q))) = Inr R
               \<and> add_polynomial inverse_entry solve_entry st polynomial =
                   ([Log LevelInfo ''Transformation matrix has norm {}'' [norm_mat Q],
                     Log LevelInfo ''Invert transformation matrix to add polynomial ...'' [],
                     Log LevelInfo ''Inversion error is {}'' [norm_mat R]],
                    Inr (st\<lparr>m_polynomials_bounds := m_polynomials_bounds st
                               @ [map (solve_entry Q polynomial) [0..<length Q]]\<rparr>))"
    using R by blast
next
  obtain R where R: "bindE (mat_mul Q (map (\<lambda>i. map (\<lambda>j. inverse_entry Q i j) [0..<length Q]) [0..<length Q]))
                    (\<lambda>P. mat_sub P (Identity_mat (length Q) (length Q))) = Inr R"
    using inversion_residual_defined[OF Q] by blast
  obtain R' where R': "bindE (mat_mul Q (map (\<lambda>i. map (\<lambda>j. other_inverse_entry Q i j) [0..<length Q]) [0..<length Q]))
                    (\<lambda>P. mat_sub P (Identity_mat (length Q) (length Q))) = Inr R'"
    using inversion_residual_defined[OF Q] by blast
  show "snd (add_polynomial other_inverse_entry solve_entry st polynomial)
           = snd (add_polynomial inverse_entry solve_entry st polynomial)"
    using Q R R' by (simp add: add_polynomial_def Let_def)
qed


lemma Q_example: "get_transformation_matrix example_state = Inr []"
  by (simp add: get_transformation_matrix_def example_state_def)

lemma Q_coefficient:
  "get_transformation_matrix coefficient_state
     = Inr [[0, 1, 0], [1 / 2, 0, - (1 / 2)], [1 / 2, - 1, 1 / 2]]"
  by (simp add: get_transformation_matrix_def coefficient_state_def upt_rec numeral_3_eq_3)

lemma coefficient_state_sel:
  "m_U coefficient_state = 3"
  "\<not> m_input_in_interpolant_basis coefficient_state"
  "m_polynomials_bounds coefficient_state = [[0, 0, 0]]"
  "m_objectives_vector coefficient_state = [- (1 / 3), - (4 / 3), - (1 / 3)]"
  "length (m_basis_polynomials coefficient_state) = 3"
  by (simp_all add: coefficient_state_def)

lemma get_transformation_matrix_eq:
  assumes "\<forall>p \<in> set (m_basis_polynomials st). length (m_basis_polynomials st) \<le> length p"
  shows "get_transformation_matrix st = Inr (transformation_matrix (m_basis_polynomials st))"
  using assms by (simp add: get_transformation_matrix_def transformation_matrix_def Let_def)

lemma transformation_matrix_length: "length (transformation_matrix bs) = length bs"
  by (simp add: transformation_matrix_def)

lemma mat_vec_transformation:
  assumes "length v = length bs"
  shows "mat_vec (transformation_matrix bs) v =
         Inr (map (\<lambda>i. \<Sum>j < length bs. bs ! j ! i * v ! j) [0..<length bs])"
proof -
  have v: "v = map ((!) v) [0..<length bs]" using assms by (metis map_nth)
  have rows: "\<forall>row \<in> set (transformation_matrix bs). length row = length v"
    using assms by (auto simp: transformation_matrix_def)
  have "sum_list (map2 (*) (map (\<lambda>j. bs ! j ! i) [0..<length bs]) v)
        = (\<Sum>j < length bs. bs ! j ! i * v ! j)" for i
  proof -
    have "sum_list (map2 (*) (map (\<lambda>j. bs ! j ! i) [0..<length bs]) (map ((!) v) [0..<length bs]))
        = (\<Sum>j < length bs. bs ! j ! i * v ! j)"
      by (rule dot_closed)
    then show ?thesis using v by simp
  qed
  then show ?thesis
    using rows by (simp add: mat_vec_def) (simp add: transformation_matrix_def comp_def)
qed

lemma peval_combination:
  assumes "\<forall>j < k. length (bs ! j) = k"
  shows "peval (map (\<lambda>i. \<Sum>j < k. bs ! j ! i * v ! j) [0..<k]) x = (\<Sum>j < k. v ! j * peval (bs ! j) x)"
proof -
  have "peval (map (\<lambda>i. \<Sum>j < k. bs ! j ! i * v ! j) [0..<k]) x
        = (\<Sum>i < k. (\<Sum>j < k. bs ! j ! i * v ! j) * x ^ i)"
    by (simp add: peval_def)
  also have "\<dots> = (\<Sum>i < k. \<Sum>j < k. v ! j * (bs ! j ! i * x ^ i))"
  proof (rule sum.cong[OF refl])
    fix i
    have "(\<Sum>j < k. bs ! j ! i * v ! j) * x ^ i = (\<Sum>j < k. bs ! j ! i * v ! j * x ^ i)"
      by (rule sum_distrib_right)
    also have "\<dots> = (\<Sum>j < k. v ! j * (bs ! j ! i * x ^ i))"
      by (rule sum.cong[OF refl]) (simp add: algebra_simps)
    finally show "(\<Sum>j < k. bs ! j ! i * v ! j) * x ^ i = (\<Sum>j < k. v ! j * (bs ! j ! i * x ^ i))" .
  qed
  also have "\<dots> = (\<Sum>j < k. \<Sum>i < k. v ! j * (bs ! j ! i * x ^ i))"
    by (rule sum.swap)
  also have "\<dots> = (\<Sum>j < k. v ! j * (\<Sum>i < k. bs ! j ! i * x ^ i))"
    by (simp add: sum_distrib_left)
  also have "\<dots> = (\<Sum>j < k. v ! j * peval (bs ! j) x)"
    using assms by (simp add: peval_def)
  finally show ?thesis .
qed

lemma lagrange_combination_at_node:
  assumes lb: "lagrange_basis pts bs" and m: "m < length bs"
  shows "peval (map (\<lambda>i. \<Sum>j < length bs. bs ! j ! i * v ! j) [0..<length bs]) (pts ! m) = v ! m"
proof -
  let ?k = "length bs"
  have len: "\<forall>j < ?k. length (bs ! j) = ?k" using lb by (simp add: lagrange_basis_def)
  have "peval (map (\<lambda>i. \<Sum>j < ?k. bs ! j ! i * v ! j) [0..<?k]) (pts ! m)
        = (\<Sum>j < ?k. v ! j * peval (bs ! j) (pts ! m))"
    by (rule peval_combination[OF len])
  also have "\<dots> = (\<Sum>j < ?k. if j = m then v ! m else 0)"
  proof (rule sum.cong[OF refl])
    fix j assume "j \<in> {..<?k}"
    then have "peval (bs ! j) (pts ! m) = (if m = j then 1 else 0)"
      using lb m by (simp add: lagrange_basis_def)
    then show "v ! j * peval (bs ! j) (pts ! m) = (if j = m then v ! m else 0)" by auto
  qed
  also have "\<dots> = v ! m" using m by (simp add: sum.delta')
  finally show ?thesis .
qed

lemma lagrange_system_solvable:
  assumes lb: "lagrange_basis pts bs" and lp: "length p = length bs"
  shows "mat_vec (transformation_matrix bs) (map (\<lambda>j. peval p (pts ! j)) [0..<length bs]) = Inr p"
proof -
  let ?k = "length bs"
  let ?v = "map (\<lambda>j. peval p (pts ! j)) [0..<?k]"
  let ?w = "map (\<lambda>i. \<Sum>j < ?k. bs ! j ! i * ?v ! j) [0..<?k]"
  have mv: "mat_vec (transformation_matrix bs) ?v = Inr ?w"
    by (rule mat_vec_transformation) simp
  have "\<forall>m < ?k. peval ?w (pts ! m) = peval p (pts ! m)"
  proof (intro allI impI)
    fix m assume m: "m < ?k"
    have "peval ?w (pts ! m) = ?v ! m" by (rule lagrange_combination_at_node[OF lb m])
    then show "peval ?w (pts ! m) = peval p (pts ! m)" using m by simp
  qed
  moreover have "length ?w = ?k" by simp
  moreover have "?k \<le> length pts" "distinct (take ?k pts)" using lb by (simp_all add: lagrange_basis_def)
  ultimately have "?w = p" using peval_unique[of ?w ?k p pts] lp by blast
  then show ?thesis using mv by simp
qed

lemma lagrange_system_unique:
  assumes lb: "lagrange_basis pts bs" and ly: "length y = length bs"
    and sol: "mat_vec (transformation_matrix bs) y = Inr p" and i: "i < length bs"
  shows "y ! i = peval p (pts ! i)"
proof -
  have "p = map (\<lambda>i. \<Sum>j < length bs. bs ! j ! i * y ! j) [0..<length bs]"
    using sol mat_vec_transformation[OF ly] by simp
  then show ?thesis using lagrange_combination_at_node[OF lb i, of y] by simp
qed

text \<open>
  Claim C5. Let \<open>Q\<close> be the transformation matrix of the stored basis, with entry \<open>(i, j)\<close>
  the coefficient \<open>i\<close> of basis polynomial \<open>j\<close>. \<open>add_polynomial\<close> appends exactly one vector.
  For interpolant input it is the input polynomial, unchanged. For coefficient input it is
  the vector that Eigen's column-pivoting QR solve returns for \<open>Q\<close> and the polynomial; the
  explicit inverse only feeds the logged residual norm of \<open>Q * Q_inv - Identity\<close>, and the
  outcome of the call is the same for any other inverse. For the basis that
  \<open>calculate_basis_polynomials\<close> builds, and a solve that returns a solution of the system
  given to it whenever there is one, the appended vector \<open>x\<close> is the solution of
  \<open>Q * x = polynomial\<close>: it solves the system, it is the only vector that does, and its
  entries are the values of the polynomial at the nodes.
\<close>

theorem add_polynomial_appends:
  assumes wf: "\<forall>p \<in> set (m_basis_polynomials st). length (m_basis_polynomials st) \<le> length p"
    and Q: "Q = transformation_matrix (m_basis_polynomials st)"
    and k: "k = length (m_basis_polynomials st)"
  shows "get_transformation_matrix st = Inr Q
       \<and> length Q = k \<and> (\<forall>i < k. \<forall>j < k. Q ! i ! j = m_basis_polynomials st ! j ! i)
       \<and> (m_input_in_interpolant_basis st \<longrightarrow>
            add_polynomial inverse_entry solve_entry st polynomial =
              ([Log LevelInfo ''Transformation matrix has norm {}'' [norm_mat Q]],
               Inr (st\<lparr>m_polynomials_bounds := m_polynomials_bounds st @ [polynomial]\<rparr>)))
       \<and> (\<not> m_input_in_interpolant_basis st \<and> length polynomial = k \<longrightarrow>
            (\<exists>R. bindE (mat_mul Q (map (\<lambda>i. map (\<lambda>j. inverse_entry Q i j) [0..<k]) [0..<k]))
                    (\<lambda>P. mat_sub P (Identity_mat k k)) = Inr R
               \<and> add_polynomial inverse_entry solve_entry st polynomial =
                   ([Log LevelInfo ''Transformation matrix has norm {}'' [norm_mat Q],
                     Log LevelInfo ''Invert transformation matrix to add polynomial ...'' [],
                     Log LevelInfo ''Inversion error is {}'' [norm_mat R]],
                    Inr (st\<lparr>m_polynomials_bounds := m_polynomials_bounds st
                               @ [map (solve_entry Q polynomial) [0..<k]]\<rparr>))))
       \<and> (\<not> m_input_in_interpolant_basis st \<and> length polynomial = k
            \<and> lagrange_basis chebyshev_points (m_basis_polynomials st)
            \<and> ((\<exists>x. length x = k \<and> mat_vec Q x = Inr polynomial) \<longrightarrow>
                 mat_vec Q (map (solve_entry Q polynomial) [0..<k]) = Inr polynomial) \<longrightarrow>
            (\<exists>x. snd (add_polynomial inverse_entry solve_entry st polynomial) =
                    Inr (st\<lparr>m_polynomials_bounds := m_polynomials_bounds st @ [x]\<rparr>)
               \<and> length x = k
               \<and> mat_vec Q x = Inr polynomial
               \<and> (\<forall>i < k. x ! i = peval polynomial (chebyshev_points ! i))
               \<and> (\<forall>y. length y = k \<and> mat_vec Q y = Inr polynomial \<longrightarrow> y = x)))
       \<and> snd (add_polynomial other_inverse_entry solve_entry st polynomial)
           = snd (add_polynomial inverse_entry solve_entry st polynomial)"
proof -
  have gQ: "get_transformation_matrix st = Inr Q"
    unfolding Q by (rule get_transformation_matrix_eq[OF wf])
  have lQ: "length Q = k" by (simp add: Q k transformation_matrix_length)
  note old = add_polynomial_outcome[OF gQ, of inverse_entry solve_entry polynomial other_inverse_entry,
      unfolded lQ]
  have p1: "m_input_in_interpolant_basis st \<longrightarrow>
            add_polynomial inverse_entry solve_entry st polynomial =
              ([Log LevelInfo ''Transformation matrix has norm {}'' [norm_mat Q]],
               Inr (st\<lparr>m_polynomials_bounds := m_polynomials_bounds st @ [polynomial]\<rparr>))"
    using old by blast
  have p2: "\<not> m_input_in_interpolant_basis st \<and> length polynomial = k \<longrightarrow>
            (\<exists>R. bindE (mat_mul Q (map (\<lambda>i. map (\<lambda>j. inverse_entry Q i j) [0..<k]) [0..<k]))
                    (\<lambda>P. mat_sub P (Identity_mat k k)) = Inr R
               \<and> add_polynomial inverse_entry solve_entry st polynomial =
                   ([Log LevelInfo ''Transformation matrix has norm {}'' [norm_mat Q],
                     Log LevelInfo ''Invert transformation matrix to add polynomial ...'' [],
                     Log LevelInfo ''Inversion error is {}'' [norm_mat R]],
                    Inr (st\<lparr>m_polynomials_bounds := m_polynomials_bounds st
                               @ [map (solve_entry Q polynomial) [0..<k]]\<rparr>)))"
    using old by blast
  have p4: "snd (add_polynomial other_inverse_entry solve_entry st polynomial)
           = snd (add_polynomial inverse_entry solve_entry st polynomial)"
    using old by blast
  have p3: "\<exists>x. snd (add_polynomial inverse_entry solve_entry st polynomial) =
                    Inr (st\<lparr>m_polynomials_bounds := m_polynomials_bounds st @ [x]\<rparr>)
               \<and> length x = k
               \<and> mat_vec Q x = Inr polynomial
               \<and> (\<forall>i < k. x ! i = peval polynomial (chebyshev_points ! i))
               \<and> (\<forall>y. length y = k \<and> mat_vec Q y = Inr polynomial \<longrightarrow> y = x)"
    if h: "\<not> m_input_in_interpolant_basis st \<and> length polynomial = k
            \<and> lagrange_basis chebyshev_points (m_basis_polynomials st)
            \<and> ((\<exists>x. length x = k \<and> mat_vec Q x = Inr polynomial) \<longrightarrow>
                 mat_vec Q (map (solve_entry Q polynomial) [0..<k]) = Inr polynomial)"
  proof -
    define x where "x = map (solve_entry Q polynomial) [0..<k]"
    have lb: "lagrange_basis chebyshev_points (m_basis_polynomials st)" using h by simp
    have lp: "length polynomial = length (m_basis_polynomials st)" using h k by simp
    have "mat_vec Q (map (\<lambda>j. peval polynomial (chebyshev_points ! j)) [0..<k]) = Inr polynomial"
      unfolding Q k by (rule lagrange_system_solvable[OF lb lp])
    then have "\<exists>x. length x = k \<and> mat_vec Q x = Inr polynomial"
      by (intro exI[of _ "map (\<lambda>j. peval polynomial (chebyshev_points ! j)) [0..<k]"]) simp
    then have sol: "mat_vec Q x = Inr polynomial" using h by (simp add: x_def)
    have lx: "length x = k" by (simp add: x_def)
    have val: "y ! i = peval polynomial (chebyshev_points ! i)"
      if "length y = k" "mat_vec Q y = Inr polynomial" "i < k" for y i
      using lagrange_system_unique[OF lb, of y polynomial i] that by (simp add: Q k)
    have uniq: "y = x" if "length y = k \<and> mat_vec Q y = Inr polynomial" for y
    proof (rule nth_equalityI)
      show "length y = length x" using that lx by simp
      fix i assume "i < length y"
      then have "i < k" using that by simp
      then show "y ! i = x ! i" using val[of y i] val[of x i] that lx sol by simp
    qed
    have "snd (add_polynomial inverse_entry solve_entry st polynomial) =
                    Inr (st\<lparr>m_polynomials_bounds := m_polynomials_bounds st @ [x]\<rparr>)"
      using p2 h by (auto simp: x_def)
    then show ?thesis using lx sol val[OF lx sol] uniq by blast
  qed
  have ent: "\<forall>i < k. \<forall>j < k. Q ! i ! j = m_basis_polynomials st ! j ! i"
    by (simp add: Q k transformation_matrix_def)
  show ?thesis
    using gQ lQ ent p1 p2 p3 p4 by blast
qed

lemma coefficient_state_lagrange:
  "lagrange_basis [1, 0, - 1] (m_basis_polynomials coefficient_state)"
  by (simp add: lagrange_basis_def coefficient_state_def peval_def numeral_3_eq_3
      less_Suc_eq lessThan_Suc all_conj_distrib)

lemma Q_coefficient_matrix:
  "transformation_matrix (m_basis_polynomials coefficient_state)
     = [[0, 1, 0], [1 / 2, 0, - (1 / 2)], [1 / 2, - 1, 1 / 2]]"
  by (simp add: transformation_matrix_def coefficient_state_def upt_rec numeral_3_eq_3)

text \<open>
  Claim C5 at \<open>example_state\<close> (interpolant input) and at \<open>coefficient_state\<close>, where the
  polynomial \<open>x\<^sup>2 - 1\<close> has the values \<open>0, - 1, 0\<close> at the nodes \<open>1, 0, - 1\<close>.
\<close>

theorem add_polynomial_appends_witness:
  "add_polynomial sample_inverse_entry sample_solve_entry example_state [- 1, 0, 1] =
     ([Log LevelInfo ''Transformation matrix has norm {}'' [0]],
      Inr (example_state\<lparr>m_polynomials_bounds := [[0, 0, 0], [- 1, 0, 1], [- 1, 0, 1]]\<rparr>))
   \<and> snd (add_polynomial sample_inverse_entry sample_solve_entry coefficient_state [- 1, 0, 1]) =
      Inr (coefficient_state\<lparr>m_polynomials_bounds := [[0, 0, 0], [0, - 1, 0]]\<rparr>)
   \<and> mat_vec [[0, 1, 0], [1 / 2, 0, - (1 / 2)], [1 / 2, - 1, 1 / 2]] [0, - 1, 0] = Inr [- 1, 0, 1]"
proof -
  let ?Q = "[[0, 1, 0], [1 / 2, 0, - (1 / 2)], [1 / 2, - 1, 1 / 2 :: real]]"
  have wf1: "\<forall>p \<in> set (m_basis_polynomials example_state).
               length (m_basis_polynomials example_state) \<le> length p"
    by (simp add: example_state_def)
  have Q1: "[] = transformation_matrix (m_basis_polynomials example_state)"
    by (simp add: transformation_matrix_def example_state_def)
  have k1: "0 = length (m_basis_polynomials example_state)"
    by (simp add: example_state_def)
  have a: "m_input_in_interpolant_basis example_state" by (simp add: example_state_def)
  from add_polynomial_appends[OF wf1 Q1 k1, of sample_inverse_entry sample_solve_entry "[- 1, 0, 1]"] a
  have 1: "add_polynomial sample_inverse_entry sample_solve_entry example_state [- 1, 0, 1] =
     ([Log LevelInfo ''Transformation matrix has norm {}'' [0]],
      Inr (example_state\<lparr>m_polynomials_bounds := [[0, 0, 0], [- 1, 0, 1], [- 1, 0, 1]]\<rparr>))"
    by (simp add: norm_mat_def example_state_def)
  have wf2: "\<forall>p \<in> set (m_basis_polynomials coefficient_state).
               length (m_basis_polynomials coefficient_state) \<le> length p"
    by (simp add: coefficient_state_def)
  have Q2: "?Q = transformation_matrix (m_basis_polynomials coefficient_state)"
    by (simp add: Q_coefficient_matrix)
  have k2: "3 = length (m_basis_polynomials coefficient_state)"
    by (simp add: coefficient_state_sel)
  have s: "map (sample_solve_entry ?Q [- 1, 0, 1]) [0..<3] = [0, - 1, 0]"
    by (simp add: sample_solve_entry_def peval_def numeral_3_eq_3 lessThan_Suc upt_rec)
  have mv: "mat_vec ?Q [0, - 1, 0] = Inr [- 1, 0, 1]"
    by (simp add: mat_vec_def)
  have b: "\<not> m_input_in_interpolant_basis coefficient_state \<and> length [- 1, 0, 1 :: real] = 3
            \<and> lagrange_basis [1, 0, - 1] (m_basis_polynomials coefficient_state)
            \<and> ((\<exists>x. length x = 3 \<and> mat_vec ?Q x = Inr [- 1, 0, 1]) \<longrightarrow>
                 mat_vec ?Q (map (sample_solve_entry ?Q [- 1, 0, 1]) [0..<3]) = Inr [- 1, 0, 1])"
    using coefficient_state_lagrange mv by (simp add: coefficient_state_sel s)
  from add_polynomial_appends[OF wf2 Q2 k2,
      of sample_inverse_entry sample_solve_entry "[- 1, 0, 1]" "[1, 0, - 1]"] b
  obtain x where x: "snd (add_polynomial sample_inverse_entry sample_solve_entry coefficient_state [- 1, 0, 1]) =
                    Inr (coefficient_state\<lparr>m_polynomials_bounds := m_polynomials_bounds coefficient_state @ [x]\<rparr>)"
      "length x = 3" "\<forall>i < 3. x ! i = peval [- 1, 0, 1] ([1, 0, - 1] ! i)"
    by blast
  have "x ! 0 = 0" "x ! 1 = - 1" "x ! 2 = 0"
    using x(3)[rule_format, of 0] x(3)[rule_format, of 1] x(3)[rule_format, of 2]
    by (simp_all add: peval_def numeral_3_eq_3 lessThan_Suc)
  then have "x = [0, - 1, 0]"
    using x(2) by (intro nth_equalityI) (auto simp: numeral_3_eq_3 less_Suc_eq numeral_2_eq_2)
  then have 2: "snd (add_polynomial sample_inverse_entry sample_solve_entry coefficient_state [- 1, 0, 1]) =
      Inr (coefficient_state\<lparr>m_polynomials_bounds := [[0, 0, 0], [0, - 1, 0]]\<rparr>)"
    using x(1) by (simp add: coefficient_state_sel)
  show ?thesis using 1 2 mv by simp
qed

text \<open>
  Claim C3 as stated fails: for interpolant input a vector of length 1 is appended to a
  registry whose vectors have length \<open>U = 3\<close>.
\<close>

theorem add_polynomial_accepts_any_length:
  "length [7 :: real] \<noteq> m_U example_state
   \<and> snd (add_polynomial sample_inverse_entry sample_solve_entry example_state [7]) =
       Inr (example_state\<lparr>m_polynomials_bounds := [[0, 0, 0], [- 1, 0, 1], [7]]\<rparr>)"
  by (simp add: add_polynomial_def get_transformation_matrix_def example_state_def)

text \<open>
  Claim C3, amended. \<open>add_polynomial\<close> does not compare the length of its input with \<open>U\<close>.
  For interpolant input every vector, whatever its length, is appended unchanged. For
  coefficient input with a basis of \<open>U\<close> polynomials, a vector whose length differs from \<open>U\<close>
  is not appended: the call stops at the size assertion of the linear solve.
\<close>

theorem add_polynomial_no_length_check:
  assumes Q: "get_transformation_matrix st = Inr Q"
  shows "(m_input_in_interpolant_basis st \<longrightarrow>
            snd (add_polynomial inverse_entry solve_entry st polynomial) =
              Inr (st\<lparr>m_polynomials_bounds := m_polynomials_bounds st @ [polynomial]\<rparr>))
       \<and> (\<not> m_input_in_interpolant_basis st \<and> length (m_basis_polynomials st) = m_U st
            \<and> length polynomial \<noteq> m_U st \<longrightarrow>
            snd (add_polynomial inverse_entry solve_entry st polynomial) = Inl AssertionFailed)"
proof (intro conjI impI)
  assume "m_input_in_interpolant_basis st"
  then show "snd (add_polynomial inverse_entry solve_entry st polynomial) =
              Inr (st\<lparr>m_polynomials_bounds := m_polynomials_bounds st @ [polynomial]\<rparr>)"
    using Q by (simp add: add_polynomial_def)
next
  assume h: "\<not> m_input_in_interpolant_basis st \<and> length (m_basis_polynomials st) = m_U st
            \<and> length polynomial \<noteq> m_U st"
  have "length Q = length (m_basis_polynomials st)"
    using get_transformation_matrix_shape[OF Q] by (simp add: has_shape_def)
  then have l: "length polynomial \<noteq> length Q" using h by simp
  obtain R where R: "bindE (mat_mul Q (map (\<lambda>i. map (\<lambda>j. inverse_entry Q i j) [0..<length Q]) [0..<length Q]))
                    (\<lambda>P. mat_sub P (Identity_mat (length Q) (length Q))) = Inr R"
    using inversion_residual_defined[OF Q] by blast
  show "snd (add_polynomial inverse_entry solve_entry st polynomial) = Inl AssertionFailed"
    using h Q R l by (simp add: add_polynomial_def Let_def)
qed

text \<open>Claim C3, amended, at \<open>example_state\<close> and \<open>coefficient_state\<close>.\<close>

theorem add_polynomial_no_length_check_witness:
  "snd (add_polynomial sample_inverse_entry sample_solve_entry example_state [7]) =
       Inr (example_state\<lparr>m_polynomials_bounds := [[0, 0, 0], [- 1, 0, 1], [7]]\<rparr>)
   \<and> snd (add_polynomial sample_inverse_entry sample_solve_entry coefficient_state [7]) =
       Inl AssertionFailed"
  using add_polynomial_no_length_check[OF Q_example, of sample_inverse_entry sample_solve_entry "[7]"]
        add_polynomial_no_length_check[OF Q_coefficient, of sample_inverse_entry sample_solve_entry "[7]"]
  by (simp add: example_state_def coefficient_state_sel)

text \<open>
  Claim C9 against the code, for coefficient input: with the reference polynomial \<open>0\<close> and
  the slack vector \<open>(1, 2, 3)\<close> the function-scope variable \<open>solution\<close> keeps the contents
  it was created with, while \<open>Q * (reference - slice)\<close> is \<open>(- 2, 1, 0)\<close>.
\<close>

theorem print_solution_coefficient_input:
  "print_solution fresh_zero coefficient_state \<lparr>sol_s = [1, 2, 3]\<rparr> = Inr [0, 0, 0]
   \<and> bindE (get_transformation_matrix coefficient_state) (\<lambda>Q. mat_vec Q [- 1, - 2, - 3])
       = Inr [- 2, 1, 0]"
  by (simp add: print_solution_def Q_coefficient mat_vec_def segment_def vec_sub_def
      coefficient_state_sel fresh_zero_def upt_rec)

text \<open>Claim C9 against the code: the result is not the product the claim names.\<close>

theorem print_solution_coefficient_input_witness:
  "print_solution fresh_zero coefficient_state \<lparr>sol_s = [1, 2, 3]\<rparr>
     \<noteq> bindE (get_transformation_matrix coefficient_state) (\<lambda>Q. mat_vec Q [- 1, - 2, - 3])"
  using print_solution_coefficient_input by simp

text \<open>
  For coefficient input the result never depends on the solution; for interpolant input
  it is \<open>reference - slice\<close>.
\<close>

lemma print_solution_coefficient_result:
  assumes "\<not> m_input_in_interpolant_basis st" "print_solution fresh st sol = Inr v"
  shows "v = map fresh [0..<m_U st]"
  using assms
  by (auto simp: print_solution_def bindE_def Let_def split: if_splits sum.splits)

lemma print_solution_interpolant_result:
  assumes "m_input_in_interpolant_basis st" "m_polynomials_bounds st \<noteq> []"
    and "length (m_objectives_vector st) \<le> length (sol_s sol)"
    and "length (m_polynomials_bounds st ! 0) = length (m_objectives_vector st)"
  shows "print_solution fresh st sol =
           Inr (map2 (-) (m_polynomials_bounds st ! 0) (take (length (m_objectives_vector st)) (sol_s sol)))"
  using assms by (simp add: print_solution_def segment_def vec_sub_def)


end
